theory Spec2Isabelle
  imports Complex_Main "HOL-Library.Word"
begin

section \<open>Aggregate transition machinery of nodeAgg.c\<close>

text \<open>
  The development embeds the executor's aggregation node
  (\<^verbatim>\<open>src/backend/executor/nodeAgg.c\<close>).  A \<^verbatim>\<open>Datum\<close> is identified with the
  value it denotes (type variable \<open>'d\<close>): \<^verbatim>\<open>datumCopy\<close>, the memory-context
  switches and \<^verbatim>\<open>pfree\<close> move or release storage and leave that value
  alone, so they are the identity here.  \<^verbatim>\<open>(Datum) 0\<close> is \<open>0\<close>.  The
  fixed-size argument arrays of a call frame (\<^verbatim>\<open>arg[FUNC_MAX_ARGS]\<close>,
  \<^verbatim>\<open>argnull[FUNC_MAX_ARGS]\<close>) are total functions of the index.
\<close>

subsection \<open>Call frames and fmgr handles\<close>

record 'd FunctionCallInfoData =
  arg :: "nat \<Rightarrow> 'd"
  argnull :: "nat \<Rightarrow> bool"
  isnull :: bool

text \<open>
  A function reached through \<^verbatim>\<open>FunctionCallInvoke\<close> reads the frame and
  returns a datum together with the \<^verbatim>\<open>isnull\<close> flag it leaves in the frame.
\<close>

type_synonym 'd PGFunction = "'d FunctionCallInfoData \<Rightarrow> 'd \<times> bool"

record 'd FmgrInfo =
  fn_addr :: "'d PGFunction"
  fn_strict :: bool

text \<open>Which handle of the per-transition slot an invocation went through.\<close>

datatype FmgrHandle = H_transfn | H_combfn | H_finalfn | H_serialfn | H_deserialfn

text \<open>
  Every \<^verbatim>\<open>FunctionCallInvoke\<close> of an aggregate support function is an
  observable effect; the model returns, next to the updated data, the list of
  invocations made (handle and the frame as it was passed).
\<close>

type_synonym 'd Invocation = "FmgrHandle \<times> 'd FunctionCallInfoData"

text \<open>Errors raised by \<^verbatim>\<open>elog(ERROR, ...)\<close>, failed \<^verbatim>\<open>Assert\<close>s and crashes.\<close>

datatype error =
    AssertFailed
  | NullPointer
  | DivisionByZero
  | UndefinedBehaviour
  | Elog string

definition bindE :: "error + 'a \<Rightarrow> ('a \<Rightarrow> error + 'b) \<Rightarrow> error + 'b" where
  "bindE m f = (case m of Inl e \<Rightarrow> Inl e | Inr x \<Rightarrow> f x)"

datatype AggStrategy = AGG_PLAIN | AGG_SORTED | AGG_HASHED | AGG_MIXED

subsection \<open>Tuple slots and sorters\<close>

record 'd TupleTableSlot =
  tts_values :: "nat \<Rightarrow> 'd"
  tts_isnull :: "nat \<Rightarrow> bool"
  tts_nvalid :: int

text \<open>
  A \<^verbatim>\<open>Tuplesortstate\<close> holds what was put into it: single datums with their
  null flag (\<^verbatim>\<open>tuplesort_begin_datum\<close>) or whole tuples
  (\<^verbatim>\<open>tuplesort_begin_heap\<close>).  The sort service itself (tuplesort.c) is a
  collaborator outside this file; its ordering and its abbreviated keys are
  parameters of the per-transition slot below.
\<close>

datatype 'd Tuplesortstate =
    DatumSort "('d \<times> bool) list"
  | HeapSort "('d list \<times> bool list) list"

subsection \<open>Per-transition slot and per-group state\<close>

text \<open>
  Fields of \<^verbatim>\<open>AggStatePerTransData\<close> in the order of the struct.  An
  \<^verbatim>\<open>ExprState\<close> is the function it evaluates (the FILTER yields a boolean
  or SQL null, a direct argument a datum and its null flag).
  \<open>serial_func_valid\<close>, \<open>deserial_func_valid\<close> and \<open>serialfn_oid_valid\<close>
  are \<^verbatim>\<open>OidIsValid\<close> of the respective OID, and \<open>aggtranstype_internal\<close> is
  \<^verbatim>\<open>aggtranstype == INTERNALOID\<close>.  The last six fields stand for code outside this file that the slot configures:
  \<^verbatim>\<open>sortOperators\<close>/\<^verbatim>\<open>sortCollations\<close>/\<^verbatim>\<open>sortNullsFirst\<close> as the
  order \<^verbatim>\<open>tuplesort_performsort\<close> establishes, the abbreviated key the
  sorter hands back, and \<^verbatim>\<open>equalfns\<close> as used directly and through
  \<^verbatim>\<open>execTuplesMatch\<close>.
\<close>

record 'd AggStatePerTransData =
  numInputs :: int
  numTransInputs :: int
  inputoff :: int
  serial_func_valid :: bool
  deserial_func_valid :: bool
  aggtranstype_internal :: bool
  aggfilter :: "('d TupleTableSlot \<Rightarrow> bool option) option"
  aggdirectargs :: "('d TupleTableSlot \<Rightarrow> 'd \<times> bool) list"
  serialfn_oid_valid :: bool
  transfn :: "'d FmgrInfo"
  serialfn :: "'d FmgrInfo"
  combfn :: "'d FmgrInfo"
  serial_func :: "'d FmgrInfo"
  deserial_func :: "'d FmgrInfo"
  numSortCols :: int
  numDistinctCols :: int
  initValue :: 'd
  initValueIsNull :: bool
  transtypeByVal :: bool
  sortstates :: "nat \<Rightarrow> 'd Tuplesortstate option"
  transfn_fcinfo :: "'d FunctionCallInfoData"
  serialfn_fcinfo :: "'d FunctionCallInfoData"
  combfn_fcinfo :: "'d FunctionCallInfoData"
  serial_func_fcinfo :: "'d FunctionCallInfoData"
  deserial_func_fcinfo :: "'d FunctionCallInfoData"
  sort_datums :: "('d \<times> bool) list \<Rightarrow> ('d \<times> bool) list"
  sort_tuples :: "('d list \<times> bool list) list \<Rightarrow> ('d list \<times> bool list) list"
  abbrev_key :: "'d \<Rightarrow> 'd"
  abbrev_tuple :: "'d list \<times> bool list \<Rightarrow> 'd"
  equalfn :: "'d \<Rightarrow> 'd \<Rightarrow> bool"
  distinct_match :: "'d list \<times> bool list \<Rightarrow> 'd list \<times> bool list \<Rightarrow> bool"

record 'd AggStatePerAggData =
  transno :: int
  finalfn_valid :: bool
  finalfn :: "'d FmgrInfo"
  numFinalArgs :: int

record 'd AggStatePerGroupData =
  transValue :: 'd
  transValueIsNull :: bool
  noTransValue :: bool

text \<open>
  \<^verbatim>\<open>initialize_aggregate\<close> (lines 741-810) for grouping set \<open>current_set\<close>:
  a DISTINCT/ORDER BY aggregate gets a fresh sorter (a datum sorter for one
  input column, a tuple sorter otherwise; an unfinished one is ended first),
  the transition value is the initial value, and both flags are
  \<^verbatim>\<open>initValueIsNull\<close>.
\<close>

definition initialize_aggregate ::
  "nat \<Rightarrow> 'd AggStatePerTransData \<Rightarrow> 'd AggStatePerGroupData
     \<Rightarrow> 'd AggStatePerTransData \<times> 'd AggStatePerGroupData" where
  "initialize_aggregate current_set pertrans pergroupstate =
     ((if numSortCols pertrans > 0
       then pertrans\<lparr>sortstates := (sortstates pertrans)
              (current_set := Some (if numInputs pertrans = 1 then DatumSort [] else HeapSort []))\<rparr>
       else pertrans),
      pergroupstate\<lparr>transValue := initValue pertrans,
                    transValueIsNull := initValueIsNull pertrans,
                    noTransValue := initValueIsNull pertrans\<rparr>)"

text \<open>
  The loop \<^verbatim>\<open>for (i = 1; i <= numTransInputs; i++) if (fcinfo->argnull[i]) return;\<close>
  as a recursion on the number of indices left; it answers whether the early
  return was taken.
\<close>

fun any_argnull_from :: "(nat \<Rightarrow> bool) \<Rightarrow> nat \<Rightarrow> nat \<Rightarrow> bool" where
  "any_argnull_from nulls i 0 = False"
| "any_argnull_from nulls i (Suc k) = (if nulls i then True else any_argnull_from nulls (Suc i) k)"

definition any_trans_input_null :: "'d AggStatePerTransData \<Rightarrow> bool" where
  "any_trans_input_null pertrans =
     any_argnull_from (argnull (transfn_fcinfo pertrans)) 1 (nat (numTransInputs pertrans))"

text \<open>
  The common tail of the three advance functions: load the state into
  argument 0, clear \<^verbatim>\<open>isnull\<close>, invoke, and store the result and its null
  flag in the per-group state.  The pass-by-reference branch after the call
  only copies the result into the aggregate context and frees the old value.
\<close>

definition invoke_and_store ::
  "FmgrHandle \<Rightarrow> 'd FmgrInfo \<Rightarrow> 'd FunctionCallInfoData \<Rightarrow> 'd AggStatePerGroupData
     \<Rightarrow> 'd FunctionCallInfoData \<times> 'd AggStatePerGroupData \<times> 'd Invocation list" where
  "invoke_and_store h flinfo fcinfo pergroupstate =
     (let fc1 = fcinfo\<lparr>arg := (arg fcinfo)(0 := transValue pergroupstate),
                        argnull := (argnull fcinfo)(0 := transValueIsNull pergroupstate),
                        isnull := False\<rparr>;
          (newVal, resnull) = fn_addr flinfo fc1;
          fc2 = fc1\<lparr>isnull := resnull\<rparr>
      in (fc2,
          pergroupstate\<lparr>transValue := newVal, transValueIsNull := resnull\<rparr>,
          [(h, fc1)]))"

text \<open>\<^verbatim>\<open>advance_transition_function\<close> (lines 876-987).\<close>

definition advance_transition_function ::
  "'d AggStatePerTransData \<Rightarrow> 'd AggStatePerGroupData
     \<Rightarrow> 'd AggStatePerTransData \<times> 'd AggStatePerGroupData \<times> 'd Invocation list" where
  "advance_transition_function pertrans pergroupstate =
     (let fcinfo = transfn_fcinfo pertrans in
      if fn_strict (transfn pertrans) \<and> any_trans_input_null pertrans
        then (pertrans, pergroupstate, [])
      else if fn_strict (transfn pertrans) \<and> noTransValue pergroupstate
        then (pertrans,
              pergroupstate\<lparr>transValue := arg fcinfo 1,
                            transValueIsNull := False,
                            noTransValue := False\<rparr>,
              [])
      else if fn_strict (transfn pertrans) \<and> transValueIsNull pergroupstate
        then (pertrans, pergroupstate, [])
      else
        (let (fc, pg, calls) = invoke_and_store H_transfn (transfn pertrans) fcinfo pergroupstate
         in (pertrans\<lparr>transfn_fcinfo := fc\<rparr>, pg, calls)))"

text \<open>
  \<^verbatim>\<open>advance_combine_function\<close> (lines 1242-1338), the split-mode input path.
  In combine mode the field \<^verbatim>\<open>transfn\<close> holds the combine function and the
  incoming partial state is argument 1 of \<^verbatim>\<open>transfn_fcinfo\<close>.
\<close>

definition advance_combine_function ::
  "'d AggStatePerTransData \<Rightarrow> 'd AggStatePerGroupData
     \<Rightarrow> 'd AggStatePerTransData \<times> 'd AggStatePerGroupData \<times> 'd Invocation list" where
  "advance_combine_function pertrans pergroupstate =
     (let fcinfo = transfn_fcinfo pertrans in
      if fn_strict (transfn pertrans) \<and> argnull fcinfo 1
        then (pertrans, pergroupstate, [])
      else if fn_strict (transfn pertrans) \<and> noTransValue pergroupstate
        then (pertrans,
              pergroupstate\<lparr>transValue := arg fcinfo 1,
                            transValueIsNull := False,
                            noTransValue := False\<rparr>,
              [])
      else
        (let (fc, pg, calls) = invoke_and_store H_transfn (transfn pertrans) fcinfo pergroupstate
         in (pertrans\<lparr>transfn_fcinfo := fc\<rparr>, pg, calls)))"

text \<open>
  \<^verbatim>\<open>combine_transition\<close> (lines 2542-2640), the hybrid reload path.  It works
  on \<^verbatim>\<open>combfn\<close> and \<^verbatim>\<open>combfn_fcinfo\<close>; the \<^verbatim>\<open>noTransValue\<close> block of its
  sibling is compiled out (\<^verbatim>\<open>#if 0\<close>), so only the null test remains in the
  strict case.
\<close>

definition combine_transition ::
  "'d AggStatePerTransData \<Rightarrow> 'd AggStatePerGroupData
     \<Rightarrow> 'd AggStatePerTransData \<times> 'd AggStatePerGroupData \<times> 'd Invocation list" where
  "combine_transition pertrans pergroupstate =
     (let fcinfo = combfn_fcinfo pertrans in
      if fn_strict (combfn pertrans) \<and> argnull fcinfo 1
        then (pertrans, pergroupstate, [])
      else
        (let (fc, pg, calls) = invoke_and_store H_combfn (combfn pertrans) fcinfo pergroupstate
         in (pertrans\<lparr>combfn_fcinfo := fc\<rparr>, pg, calls)))"


subsection \<open>The aggregation node's working state\<close>

text \<open>
  The fields of \<^verbatim>\<open>AggState\<close> the per-aggregate machinery reads and writes.
  Arrays (\<^verbatim>\<open>pertrans\<close>, \<^verbatim>\<open>peragg\<close>, \<^verbatim>\<open>ecxt_aggvalues\<close>,
  \<^verbatim>\<open>ecxt_aggnulls\<close>, the \<^verbatim>\<open>pergroup\<close> arrays passed around) are functions
  of the index.  \<open>phase_numsets\<close> is \<^verbatim>\<open>aggstate->phase->numsets\<close>,
  \<open>tmp_outertuple\<close> is \<^verbatim>\<open>tmpcontext->ecxt_outertuple\<close>, \<open>out_outertuple\<close>
  is \<^verbatim>\<open>ps_ExprContext->ecxt_outertuple\<close>, \<open>aggsplit_skipfinal\<close> is
  \<^verbatim>\<open>DO_AGGSPLIT_SKIPFINAL(aggsplit)\<close>, and \<open>invoked\<close> is the trace of
  support-function invocations.
\<close>

record 'd AggState =
  aggstrategy :: AggStrategy
  aggsplit_skipfinal :: bool
  numaggs :: int
  numtrans :: int
  peragg :: "nat \<Rightarrow> 'd AggStatePerAggData"
  pertrans :: "nat \<Rightarrow> 'd AggStatePerTransData"
  phase_numsets :: int
  num_hashes :: int
  current_set :: int
  evalslot :: "'d TupleTableSlot"
  evalproj :: "('d TupleTableSlot \<Rightarrow> 'd TupleTableSlot) option"
  tmp_outertuple :: "'d TupleTableSlot"
  out_outertuple :: "'d TupleTableSlot"
  aggvalues :: "nat \<Rightarrow> 'd"
  aggnulls :: "nat \<Rightarrow> bool"
  invoked :: "'d Invocation list"

definition numGroupingSets :: "'d AggState \<Rightarrow> nat" where
  "numGroupingSets aggstate = nat (max (phase_numsets aggstate) 1)"

subsection \<open>advance_aggregates\<close>













subsection \<open>Draining the per-aggregate sorters\<close>





subsection \<open>Final functions\<close>




subsection \<open>finalize_aggregates\<close>





subsection \<open>initialize_aggregates\<close>

text \<open>
  The inner loop over \<^verbatim>\<open>setno < numReset\<close>: select the set, then
  \<^verbatim>\<open>initialize_aggregate\<close> on \<^verbatim>\<open>pergroup[transno + setno * numTrans]\<close>.
\<close>

fun initialize_sets ::
  "nat \<Rightarrow> nat list \<Rightarrow> 'd AggState \<times> (nat \<Rightarrow> 'd AggStatePerGroupData)
     \<Rightarrow> 'd AggState \<times> (nat \<Rightarrow> 'd AggStatePerGroupData)" where
  "initialize_sets tno [] st = st"
| "initialize_sets tno (setno # rest) (aggstate, pergroup) =
     (let idx = tno + setno * nat (numtrans aggstate);
          (pt, pg) = initialize_aggregate setno (pertrans aggstate tno) (pergroup idx)
      in initialize_sets tno rest
           (aggstate\<lparr>current_set := int setno, pertrans := (pertrans aggstate)(tno := pt)\<rparr>,
            pergroup(idx := pg)))"

fun initialize_aggregates_loop ::
  "int \<Rightarrow> nat list \<Rightarrow> 'd AggState \<times> (nat \<Rightarrow> 'd AggStatePerGroupData)
     \<Rightarrow> 'd AggState \<times> (nat \<Rightarrow> 'd AggStatePerGroupData)" where
  "initialize_aggregates_loop numReset [] st = st"
| "initialize_aggregates_loop numReset (tno # rest) (aggstate, pergroup) =
     initialize_aggregates_loop numReset rest
       (if numReset < 0 then
          (let (pt, pg) = initialize_aggregate (nat (current_set aggstate)) (pertrans aggstate tno)
                            (pergroup tno)
           in (aggstate\<lparr>pertrans := (pertrans aggstate)(tno := pt)\<rparr>, pergroup(tno := pg)))
        else initialize_sets tno [0 ..< nat numReset] (aggstate, pergroup))"

text \<open>
  \<^verbatim>\<open>initialize_aggregates\<close> (lines 823-863): \<^verbatim>\<open>numReset = 0\<close> stands for all
  grouping sets, a negative \<^verbatim>\<open>numReset\<close> for the single array of a hash
  entry, under the grouping set the caller has selected.
\<close>

definition initialize_aggregates ::
  "'d AggState \<Rightarrow> (nat \<Rightarrow> 'd AggStatePerGroupData) \<Rightarrow> int
     \<Rightarrow> 'd AggState \<times> (nat \<Rightarrow> 'd AggStatePerGroupData)" where
  "initialize_aggregates aggstate pergroup numReset =
     initialize_aggregates_loop (if numReset = 0 then int (numGroupingSets aggstate) else numReset)
       [0 ..< nat (numtrans aggstate)] (aggstate, pergroup)"

section \<open>Parallel redistribution: choosing the destination worker\<close>

text \<open>
  Here a \<^verbatim>\<open>Datum\<close> is the 64-bit machine word it is, because
  \<^verbatim>\<open>ReDistributeHash\<close> reinterprets its bits.  The type OIDs the switch
  distinguishes are macros of \<^verbatim>\<open>pg_type.h\<close>; only their identity matters,
  so they are constructors, and every other type OID is \<open>OtherTypeOid\<close>.
\<close>

datatype TypeOid =
    INT8OID | CASHOID
  | INT2OID
  | OIDOID
  | INT4OID | ABSTIMEOID | RELTIMEOID | DATEOID
  | BOOLOID | CHAROID
  | TIMEOID | TIMESTAMPOID | TIMESTAMPTZOID
  | OtherTypeOid nat

text \<open>C's \<^verbatim>\<open>%\<close> on signed operands truncates towards zero.\<close>

definition c_rem :: "int \<Rightarrow> int \<Rightarrow> int" where
  "c_rem a b = sgn a * (\<bar>a\<bar> mod \<bar>b\<bar>)"

text \<open>
  The seven blocks of the switch in \<^verbatim>\<open>ReDistributeHash\<close>, in source order.
  Each computes \<^verbatim>\<open>(val % num) % numWorkers\<close> for its own reading of the
  datum: signed 64, 16 and 32 bit, unsigned 32 bit (where the \<^verbatim>\<open>int\<close>
  operands are converted to unsigned), a \<^verbatim>\<open>char\<close> widened to \<^verbatim>\<open>int32\<close>, and
  in the default block the low 32 bits of the hash function's result as
  \<^verbatim>\<open>unsigned int\<close>.
\<close>

definition block_int64 :: "64 word \<Rightarrow> int \<Rightarrow> int \<Rightarrow> int" where
  "block_int64 v num numWorkers = c_rem (c_rem (sint v) num) numWorkers"

definition block_int16 :: "64 word \<Rightarrow> int \<Rightarrow> int \<Rightarrow> int" where
  "block_int16 v num numWorkers = c_rem (c_rem (sint (ucast v :: 16 word)) num) numWorkers"

definition block_uint32 :: "64 word \<Rightarrow> int \<Rightarrow> int \<Rightarrow> int" where
  "block_uint32 v num numWorkers = (uint (ucast v :: 32 word) mod num) mod numWorkers"

definition block_int32 :: "64 word \<Rightarrow> int \<Rightarrow> int \<Rightarrow> int" where
  "block_int32 v num numWorkers = c_rem (c_rem (sint (ucast v :: 32 word)) num) numWorkers"

definition block_char :: "64 word \<Rightarrow> int \<Rightarrow> int \<Rightarrow> int" where
  "block_char v num numWorkers = c_rem (c_rem (sint (ucast v :: 8 word)) num) numWorkers"

definition block_default :: "(64 word \<Rightarrow> 64 word) \<Rightarrow> 64 word \<Rightarrow> int \<Rightarrow> int \<Rightarrow> int" where
  "block_default hashfunc v num numWorkers =
     (uint (ucast (hashfunc v) :: 32 word) mod num) mod numWorkers"

definition switch_blocks :: "(64 word \<Rightarrow> 64 word) \<Rightarrow> (64 word \<Rightarrow> int \<Rightarrow> int \<Rightarrow> int) list" where
  "switch_blocks hashfunc =
     [block_int64, block_int16, block_uint32, block_int32, block_char, block_int64,
      block_default hashfunc]"

text \<open>The block a case label jumps to.\<close>

fun switch_entry :: "TypeOid \<Rightarrow> nat" where
  "switch_entry INT8OID = 0"
| "switch_entry CASHOID = 0"
| "switch_entry INT2OID = 1"
| "switch_entry OIDOID = 2"
| "switch_entry INT4OID = 3"
| "switch_entry ABSTIMEOID = 3"
| "switch_entry RELTIMEOID = 3"
| "switch_entry DATEOID = 3"
| "switch_entry BOOLOID = 4"
| "switch_entry CHAROID = 4"
| "switch_entry TIMEOID = 5"
| "switch_entry TIMESTAMPOID = 5"
| "switch_entry TIMESTAMPTZOID = 5"
| "switch_entry (OtherTypeOid _) = 6"

text \<open>
  No block of the switch ends in \<^verbatim>\<open>break\<close>: control enters at the label and
  runs every block from there to the end, each one overwriting \<^verbatim>\<open>result\<close>.
\<close>

fun run_blocks :: "(64 word \<Rightarrow> int \<Rightarrow> int \<Rightarrow> int) list \<Rightarrow> 64 word \<Rightarrow> int \<Rightarrow> int \<Rightarrow> int \<Rightarrow> int" where
  "run_blocks [] v num numWorkers result = result"
| "run_blocks (blk # rest) v num numWorkers result =
     run_blocks rest v num numWorkers (blk v num numWorkers)"

text \<open>
  \<^verbatim>\<open>ReDistributeHash\<close> (lines 6111-6167).  \<^verbatim>\<open>1 << numWorkers\<close> is defined
  for an \<^verbatim>\<open>int\<close> only while the result fits, that is for
  \<^verbatim>\<open>0 <= numWorkers < 31\<close>; \<^verbatim>\<open>% numWorkers\<close> traps for zero workers.
\<close>

definition ReDistributeHash ::
  "TypeOid \<Rightarrow> int \<Rightarrow> 64 word \<Rightarrow> (64 word \<Rightarrow> 64 word) \<Rightarrow> error + int" where
  "ReDistributeHash dataType numWorkers v hashfunc =
     (if numWorkers < 0 \<or> 31 \<le> numWorkers then Inl UndefinedBehaviour
      else if numWorkers = 0 then Inl DivisionByZero
      else
        (let num = 2 ^ nat numWorkers;
             result = run_blocks (drop (switch_entry dataType) (switch_blocks hashfunc))
                        v num numWorkers 0
         in Inr \<bar>result\<bar>))"

text \<open>
  The head of \<^verbatim>\<open>ReDistributeData\<close> (lines 5547-5605): the value of the
  redistribution column is fetched from the row, a null key goes to worker
  0, any other to the worker \<^verbatim>\<open>ReDistributeHash\<close> names; a row whose
  destination is this worker is kept (\<^verbatim>\<open>return false\<close>, the caller
  aggregates it), any other is published under
  \<^verbatim>\<open>index = ParallelWorkerNumber * numWorkers + indexSendWorker\<close>.  What
  follows in the source (the ring buffers in shared memory, the spill to a
  temporary file, polling the peers' buffers) is communication between
  workers and is not part of this model.
\<close>

datatype Routing = KeptLocally | Published int int

definition ReDistributeData ::
  "int \<Rightarrow> int \<Rightarrow> nat \<Rightarrow> (64 word) TupleTableSlot \<Rightarrow> (64 word \<Rightarrow> 64 word) \<Rightarrow> TypeOid
     \<Rightarrow> error + Routing" where
  "ReDistributeData ParallelWorkerNumber numWorkers varattno slot hashfunc type =
     bindE (if tts_isnull slot (varattno - 1) then Inr 0
            else ReDistributeHash type numWorkers (tts_values slot (varattno - 1)) hashfunc)
       (\<lambda>indexSendWorker.
          if indexSendWorker = ParallelWorkerNumber then Inr KeptLocally
          else Inr (Published indexSendWorker (ParallelWorkerNumber * numWorkers + indexSendWorker)))"

section \<open>Hybrid hash aggregation\<close>

subsection \<open>Sizing\<close>

text \<open>
  The fields of \<^verbatim>\<open>TupleHashTable\<close> that \<^verbatim>\<open>OptimizeHybridHashtableSize\<close>
  writes; the table as a whole extends this record further down.  \<open>set_hybrid\<close> records the arguments of the call
  \<^verbatim>\<open>tuplehash_set_hybrid(hashtab, nentries, nbatches, true)\<close> (the table
  implementation is not in this file).  \<open>spill_set\<close> is a pointer.
\<close>

record HybridSizing =
  nbatches :: int
  spilled :: bool
  spill_set :: "nat option"
  nentries :: "32 word"
  set_hybrid :: "(int \<times> int \<times> bool) option"
  hybrid :: bool

text \<open>C's \<^verbatim>\<open>/\<close> on signed operands truncates towards zero.\<close>

definition c_div :: "int \<Rightarrow> int \<Rightarrow> int" where
  "c_div a b = sgn a * sgn b * (\<bar>a\<bar> div \<bar>b\<bar>)"

text \<open>
  \<^verbatim>\<open>OptimizeHybridHashtableSize\<close> (lines 2261-2299).  \<^verbatim>\<open>work_mem\<close> and
  \<^verbatim>\<open>g_default_hashagg_nbatches\<close> are \<^verbatim>\<open>int\<close> settings (read with \<open>sint\<close>), \<^verbatim>\<open>entrySize\<close> a
  \<^verbatim>\<open>uint32\<close>.  \<^verbatim>\<open>max_mem = work_mem * 1024L\<close> is a \<^verbatim>\<open>long\<close> and cannot
  overflow.  \<^verbatim>\<open>max_mem/entrySize\<close> is an integer division (it traps for a
  zero divisor) whose quotient, below \<open>2^53\<close>, converts to \<^verbatim>\<open>double\<close>
  exactly, so \<^verbatim>\<open>ceil\<close> leaves it as it is; both branches of the test on
  \<^verbatim>\<open>numGroups\<close> assign the same \<^verbatim>\<open>nentries\<close>, and the \<^verbatim>\<open>nbatches\<close> of the
  first branch is overwritten by the setting.  The test itself is kept, on
  reals.  Converting \<^verbatim>\<open>nentries\<close> to \<^verbatim>\<open>uint32\<close> is defined only for a
  value in range.
\<close>

definition OptimizeHybridHashtableSize ::
  "32 word \<Rightarrow> 32 word \<Rightarrow> 'z HybridSizing_scheme \<Rightarrow> 32 word \<Rightarrow> real
     \<Rightarrow> error + 'z HybridSizing_scheme" where
  "OptimizeHybridHashtableSize work_mem g_default_hashagg_nbatches hashtable entrySize numGroups =
     (let max_mem = sint work_mem * 1024 in
      if entrySize = 0 then Inl DivisionByZero
      else
        (let nentries_d = (if real_of_int max_mem \<le> real_of_int (uint entrySize) * numGroups
                           then c_div max_mem (uint entrySize)
                           else c_div max_mem (uint entrySize));
             nbatches_d = sint g_default_hashagg_nbatches
         in if nentries_d < 0 \<or> 2 ^ 32 \<le> nentries_d then Inl UndefinedBehaviour
            else Inr (hashtable\<lparr>nbatches := nbatches_d,
                                spilled := False,
                                spill_set := None,
                                nentries := word_of_int nentries_d,
                                set_hybrid := Some (nentries_d, nbatches_d, True),
                                hybrid := True\<rparr>)))"

subsection \<open>Spill sets and the tuple hash table\<close>

text \<open>
  A spilled entry as one record of a batch file: the hash, the minimal tuple
  (a column is \<open>None\<close> when null), the array of per-group states as it was
  in memory, and per state the bytes written after the array (the raw value
  of a by-reference state, the serialized form of an \<^verbatim>\<open>INTERNAL\<close> one).
  Records are kept structured; their byte lengths (\<^verbatim>\<open>total_size\<close>,
  \<^verbatim>\<open>write_len\<close>, which sum the same fields twice and are compared) are not
  modelled.
\<close>

record 'd SpillRecord =
  rec_hash :: "32 word"
  rec_tuple :: "'d option list"
  rec_pergroup :: "nat \<Rightarrow> 'd AggStatePerGroupData"
  rec_payload :: "nat \<Rightarrow> 'd option"

text \<open>
  \<^verbatim>\<open>SpillFile\<close> and \<^verbatim>\<open>SpillSet\<close>, with the fields the code uses.  The
  \<^verbatim>\<open>BufFile\<close> \<open>buffile\<close> is the list of records written to it (the temporary file
  service is assumed to work: every write appends, a rewind followed by reads
  yields the records in order).  \<open>file_spilled\<close> is the field \<^verbatim>\<open>spilled\<close> of
  \<^verbatim>\<open>SpillFile\<close>.  Pointers to spill sets are addresses in the table's
  memory context; a spill file is reached only through the array of its set
  and is stored in it.
\<close>

record 'd SpillFile =
  ntups_read :: "32 word"
  ntups_write :: "32 word"
  file_spilled :: bool
  child_spill_set :: "nat option"
  buffile :: "'d SpillRecord list"

record 'd SpillSet =
  level :: int
  num_files :: int
  parent_index :: int
  parent_spill_set :: "nat option"
  current_file :: int
  spill_file :: "'d SpillFile option list"

record 'd TupleHashEntryData =
  firstTuple :: "'d option list"
  additional :: "(nat \<Rightarrow> 'd AggStatePerGroupData) option"
  hash :: "32 word"

text \<open>
  \<^verbatim>\<open>TupleHashTable\<close>: the sizing fields above, the entries of \<^verbatim>\<open>hashtab\<close>
  in iteration order, the spill sets allocated in \<^verbatim>\<open>tablecxt\<close> (by address;
  \<open>tablecxt_used\<close> is the next address \<^verbatim>\<open>palloc\<close> hands out), and the hash
  of a key tuple as the table's hash functions compute it.
\<close>

record 'd TupleHashTable = HybridSizing +
  hashtab :: "'d TupleHashEntryData list"
  tablecxt :: "nat \<Rightarrow> 'd SpillSet option"
  tablecxt_used :: nat
  hash_key :: "'d option list \<Rightarrow> 32 word"

text \<open>
  Modelled from the spec: the hash table implementation (\<^verbatim>\<open>LookupTupleHashEntry\<close>,
  \<^verbatim>\<open>tuplehash_insert_with_key\<close>, \<^verbatim>\<open>tuplehash_reset\<close>,
  \<^verbatim>\<open>tuplehash_set_hybrid\<close>) is not in this file.  Following the spec: a
  lookup probes the table by key; in hybrid mode the table holds at most
  \<open>E\<close> entries, and an insert of a new key into a table at capacity is
  refused (the null result that triggers the dump); otherwise a new entry is
  added; a reset empties the table.  \<open>E\<close> is the entry count last handed to
  \<^verbatim>\<open>tuplehash_set_hybrid\<close> with the hybrid flag set.
\<close>

definition at_capacity :: "'d TupleHashTable \<Rightarrow> bool" where
  "at_capacity ht =
     (case set_hybrid ht of
        Some (E, B, True) \<Rightarrow> int (length (hashtab ht)) \<ge> E
      | _ \<Rightarrow> False)"

definition find_entry :: "'d TupleHashTable \<Rightarrow> 'd option list \<Rightarrow> 'd TupleHashEntryData option" where
  "find_entry ht key = find (\<lambda>e. firstTuple e = key) (hashtab ht)"

definition tuplehash_insert_with_key ::
  "'d TupleHashTable \<Rightarrow> 'd option list \<Rightarrow> 32 word
     \<Rightarrow> 'd TupleHashTable \<times> 'd TupleHashEntryData option \<times> bool" where
  "tuplehash_insert_with_key ht key hashkey =
     (case find_entry ht key of
        Some e \<Rightarrow> (ht, Some e, True)
      | None \<Rightarrow>
          if at_capacity ht then (ht, None, False)
          else (let e = \<lparr>firstTuple = key, additional = None, hash = hashkey\<rparr>
                in (ht\<lparr>hashtab := hashtab ht @ [e]\<rparr>, Some e, False)))"

text \<open>
  \<^verbatim>\<open>LookupTupleHashEntry\<close> hashes the key itself; its third result is
  \<^verbatim>\<open>isnew\<close>.
\<close>

definition LookupTupleHashEntry ::
  "'d TupleHashTable \<Rightarrow> 'd option list
     \<Rightarrow> 'd TupleHashTable \<times> 'd TupleHashEntryData option \<times> bool" where
  "LookupTupleHashEntry ht key =
     (case tuplehash_insert_with_key ht key (hash_key ht key) of
        (ht', entry, found) \<Rightarrow> (ht', entry, entry \<noteq> None \<and> \<not> found))"

definition tuplehash_reset :: "'d TupleHashTable \<Rightarrow> 'd TupleHashTable" where
  "tuplehash_reset ht = ht\<lparr>hashtab := []\<rparr>"

text \<open>Storing through an entry pointer: the entry with that key is replaced.\<close>

definition store_entry :: "'d TupleHashEntryData \<Rightarrow> 'd TupleHashTable \<Rightarrow> 'd TupleHashTable" where
  "store_entry e ht =
     ht\<lparr>hashtab := map (\<lambda>x. if firstTuple x = firstTuple e then e else x) (hashtab ht)\<rparr>"

subsection \<open>Writing records to batch files\<close>

text \<open>
  \<^verbatim>\<open>hash % n\<close> for a \<^verbatim>\<open>uint32\<close> hash and an \<^verbatim>\<open>int\<close> count: the count is
  converted to \<^verbatim>\<open>unsigned int\<close>; a zero divisor traps.
\<close>

definition u32_mod :: "32 word \<Rightarrow> int \<Rightarrow> error + nat" where
  "u32_mod h n =
     (if n mod 2 ^ 32 = 0 then Inl DivisionByZero else Inr (nat (uint h mod (n mod 2 ^ 32))))"

text \<open>
  An array of per-group states is a function of the index; the cells a C
  array does not have, or that are not written yet, hold \<open>unset_pergroup\<close>.
  Nothing reads them.
\<close>

definition unset_pergroup :: "('d::zero) AggStatePerGroupData" where
  "unset_pergroup = \<lparr>transValue = 0, transValueIsNull = False, noTransValue = False\<rparr>"

definition new_spill_file :: "'d SpillFile" where
  "new_spill_file =
     \<lparr>ntups_read = 0, ntups_write = 0, file_spilled = False, child_spill_set = None, buffile = []\<rparr>"

text \<open>
  Appending one record to batch file \<open>i\<close> of a spill set: the file is created
  on first use, the record is written and \<^verbatim>\<open>ntups_write\<close> is incremented.
  An index outside the array is an out-of-bounds access.
\<close>

definition append_record :: "'d SpillSet \<Rightarrow> nat \<Rightarrow> 'd SpillRecord \<Rightarrow> error + 'd SpillSet" where
  "append_record ss i r =
     (if i \<ge> length (spill_file ss) then Inl UndefinedBehaviour
      else
        (let f = (case spill_file ss ! i of None \<Rightarrow> new_spill_file | Some f \<Rightarrow> f)
         in Inr (ss\<lparr>spill_file := (spill_file ss)
                   [i := Some (f\<lparr>buffile := buffile f @ [r], ntups_write := ntups_write f + 1\<rparr>)]\<rparr>)))"

subsection \<open>DumpHybridHashtable\<close>

text \<open>
  What is written after the state array for one per-group state (both passes
  over the states in \<^verbatim>\<open>DumpHybridHashtable\<close> make the same case
  distinction): nothing for a null state; the raw value of a by-reference
  state; for a by-value state of type \<^verbatim>\<open>INTERNAL\<close> the result of the
  serialization function, which must exist; nothing otherwise.  A null
  result of the serialization function is then dereferenced by
  \<^verbatim>\<open>VARSIZE_ANY\<close>.
\<close>

definition dump_payload ::
  "'d AggState \<Rightarrow> nat \<Rightarrow> 'd AggStatePerGroupData \<Rightarrow> error + ('d AggState \<times> 'd option)" where
  "dump_payload aggstate aggno pg =
     (let pt = pertrans aggstate aggno in
      if transValueIsNull pg then Inr (aggstate, None)
      else if \<not> transtypeByVal pt then Inr (aggstate, Some (transValue pg))
      else if aggtranstype_internal pt then
        (if \<not> serial_func_valid pt then Inl (Elog ''could not serialize the transition value'')
         else
           (let fc0 = serial_func_fcinfo pt;
                fc = fc0\<lparr>arg := (arg fc0)(0 := transValue pg),
                         argnull := (argnull fc0)(0 := transValueIsNull pg)\<rparr>;
                (v, resnull) = fn_addr (serial_func pt) fc
            in if resnull then Inl NullPointer
               else Inr (aggstate\<lparr>pertrans := (pertrans aggstate)
                                   (aggno := pt\<lparr>serial_func_fcinfo := fc\<lparr>isnull := resnull\<rparr>\<rparr>),
                                 invoked := invoked aggstate @ [(H_serialfn, fc)]\<rparr>,
                         Some v)))
      else Inr (aggstate, None))"

fun dump_payloads ::
  "(nat \<Rightarrow> 'd AggStatePerGroupData) \<Rightarrow> nat list \<Rightarrow> 'd AggState \<times> (nat \<Rightarrow> 'd option)
     \<Rightarrow> error + ('d AggState \<times> (nat \<Rightarrow> 'd option))" where
  "dump_payloads groupstate [] st = Inr st"
| "dump_payloads groupstate (aggno # rest) (aggstate, payload) =
     bindE (dump_payload aggstate aggno (groupstate aggno))
       (\<lambda>(agg1, bytes). dump_payloads groupstate rest (agg1, payload(aggno := bytes)))"

text \<open>
  The record written for one entry: hash, tuple, the state array and what
  follows it.  Without transition states only hash and tuple are written.
\<close>

definition dump_record ::
  "('d::zero) TupleHashEntryData \<Rightarrow> 'd AggState \<Rightarrow> error + ('d AggState \<times> 'd SpillRecord)" where
  "dump_record entry aggstate =
     (if numtrans aggstate > 0 then
        (case additional entry of
           None \<Rightarrow> Inl NullPointer
         | Some groupstate \<Rightarrow>
             bindE (dump_payloads groupstate [0 ..< nat (numtrans aggstate)] (aggstate, (\<lambda>_. None)))
               (\<lambda>(agg1, payload).
                  Inr (agg1, \<lparr>rec_hash = hash entry, rec_tuple = firstTuple entry,
                              rec_pergroup = groupstate, rec_payload = payload\<rparr>)))
      else Inr (aggstate, \<lparr>rec_hash = hash entry, rec_tuple = firstTuple entry,
                           rec_pergroup = (\<lambda>_. unset_pergroup), rec_payload = (\<lambda>_. None)\<rparr>))"

text \<open>
  The body of the \<^verbatim>\<open>while (entry)\<close> loop (lines 2348-2531) for one entry:
  the batch index is \<^verbatim>\<open>hash % hashtable->nbatches\<close>, and the record goes to
  that file of the table's current spill set.
\<close>

definition dump_entry ::
  "('d::zero) TupleHashEntryData \<Rightarrow> 'd AggState \<times> 'd TupleHashTable
     \<Rightarrow> error + ('d AggState \<times> 'd TupleHashTable)" where
  "dump_entry entry st =
     (case st of (aggstate, ht) \<Rightarrow>
      bindE (u32_mod (hash entry) (nbatches ht)) (\<lambda>spill_file_index.
        case spill_set ht of
          None \<Rightarrow> Inl NullPointer
        | Some sa \<Rightarrow>
            (case tablecxt ht sa of
               None \<Rightarrow> Inl NullPointer
             | Some ss \<Rightarrow>
                 if spill_file_index \<ge> length (spill_file ss) then Inl UndefinedBehaviour
                 else
                   bindE (dump_record entry aggstate) (\<lambda>(agg1, r).
                     bindE (append_record ss spill_file_index r) (\<lambda>ss'.
                       Inr (agg1, ht\<lparr>tablecxt := (tablecxt ht)(sa := Some ss')\<rparr>))))))"

fun dump_entries ::
  "('d::zero) TupleHashEntryData list \<Rightarrow> 'd AggState \<times> 'd TupleHashTable
     \<Rightarrow> error + ('d AggState \<times> 'd TupleHashTable)" where
  "dump_entries [] st = Inr st"
| "dump_entries (entry # rest) st = bindE (dump_entry entry st) (dump_entries rest)"

text \<open>
  Preparing the spill set on the first dump (lines 2315-2338): level 0,
  \<^verbatim>\<open>nbatches\<close> empty slots, no parent.  \<^verbatim>\<open>palloc0\<close> refuses a negative
  size.
\<close>

definition prepare_spill_set :: "'d TupleHashTable \<Rightarrow> error + 'd TupleHashTable" where
  "prepare_spill_set ht =
     (if spilled ht then Inr ht
      else if nbatches ht < 0 then Inl (Elog ''invalid memory alloc request size'')
      else
        (let a = tablecxt_used ht
         in Inr (ht\<lparr>spilled := True,
                    spill_set := Some a,
                    tablecxt := (tablecxt ht)
                      (a := Some \<lparr>level = 0, num_files = nbatches ht, parent_index = - 1,
                                  parent_spill_set = None, current_file = 0,
                                  spill_file = replicate (nat (nbatches ht)) None\<rparr>),
                    tablecxt_used := Suc a\<rparr>)))"

text \<open>
  \<^verbatim>\<open>DumpHybridHashtable\<close> (lines 2304-2540): prepare the spill set, write
  every entry, reset the table (and its memory context).
\<close>

definition DumpHybridHashtable ::
  "('d::zero) AggState \<Rightarrow> 'd TupleHashTable \<Rightarrow> error + ('d AggState \<times> 'd TupleHashTable)" where
  "DumpHybridHashtable aggstate hashtable =
     bindE (prepare_spill_set hashtable) (\<lambda>ht1.
       bindE (dump_entries (hashtab ht1) (aggstate, ht1)) (\<lambda>(agg1, ht2).
         Inr (agg1, tuplehash_reset ht2)))"

subsection \<open>lookup_hash_entry\<close>

record 'd AggStatePerHashData =
  hashtable :: "'d TupleHashTable"
  numhashGrpCols :: int
  hashGrpColIdxInput :: "nat \<Rightarrow> int"

text \<open>
  The key tuple: column \<open>i\<close> of the hash slot is input column
  \<^verbatim>\<open>hashGrpColIdxInput[i] - 1\<close>, for \<^verbatim>\<open>i < numhashGrpCols\<close>.
\<close>

definition hash_key_tuple :: "'d AggStatePerHashData \<Rightarrow> 'd TupleTableSlot \<Rightarrow> 'd option list" where
  "hash_key_tuple phash inputslot =
     map (\<lambda>i. let varNumber = nat (hashGrpColIdxInput phash i - 1)
               in if tts_isnull inputslot varNumber then None
                  else Some (tts_values inputslot varNumber))
       [0 ..< nat (numhashGrpCols phash)]"

text \<open>
  Lines 2127-2160 of \<^verbatim>\<open>lookup_hash_entry\<close>: find or create the entry; in
  hybrid mode a refused insert dumps the table and is retried once, and a
  second refusal is an error; outside hybrid mode a refusal is an error at
  once.  The result carries \<^verbatim>\<open>isnew\<close>.
\<close>

definition lookup_or_dump ::
  "('d::zero) AggState \<Rightarrow> 'd TupleHashTable \<Rightarrow> 'd option list
     \<Rightarrow> error + ('d AggState \<times> 'd TupleHashTable \<times> 'd TupleHashEntryData \<times> bool)" where
  "lookup_or_dump aggstate ht key =
     (case LookupTupleHashEntry ht key of (ht1, entry1, isnew1) \<Rightarrow>
        if hybrid ht1 then
          (case entry1 of
             Some e \<Rightarrow> Inr (aggstate, ht1, e, isnew1)
           | None \<Rightarrow>
               bindE (DumpHybridHashtable aggstate ht1) (\<lambda>(agg2, ht2).
                 (case LookupTupleHashEntry ht2 key of (ht3, entry3, isnew3) \<Rightarrow>
                    (case entry3 of
                       None \<Rightarrow> Inl (Elog ''could not find entry in hybrid-hashtable'')
                     | Some e \<Rightarrow> Inr (agg2, ht3, e, isnew3)))))
        else
          (case entry1 of
             None \<Rightarrow> Inl (Elog ''could not find entry in hashtable'')
           | Some e \<Rightarrow> Inr (aggstate, ht1, e, isnew1)))"

text \<open>
  \<^verbatim>\<open>lookup_hash_entry\<close> (lines 2104-2188) on \<open>phash\<close>, the
  \<^verbatim>\<open>perhash[current_set]\<close> of the caller.  A new entry gets a freshly
  allocated state array, which \<^verbatim>\<open>initialize_aggregates\<close> fills for every
  slot below \<^verbatim>\<open>numtrans\<close>.
\<close>

definition lookup_hash_entry ::
  "('d::zero) AggState \<Rightarrow> 'd AggStatePerHashData
     \<Rightarrow> error + ('d AggState \<times> 'd AggStatePerHashData \<times> 'd TupleHashEntryData)" where
  "lookup_hash_entry aggstate phash =
     bindE (lookup_or_dump aggstate (hashtable phash) (hash_key_tuple phash (tmp_outertuple aggstate)))
       (\<lambda>(agg, ht, e, isnew).
          if isnew then
            (let (agg', pergroup) = initialize_aggregates agg (\<lambda>_. unset_pergroup) (- 1);
                 e' = e\<lparr>additional := Some pergroup\<rparr>
             in Inr (agg', phash\<lparr>hashtable := store_entry e' ht\<rparr>, e'))
          else Inr (agg, phash\<lparr>hashtable := ht\<rparr>, e))"

subsection \<open>LoadHybridHashtable\<close>

text \<open>
  Restoring one per-group state from a record (the same case distinction in
  the merge branch, lines 2769-2804, and in the new-entry branch, lines
  2917-2957): a null state is taken as it is; a by-reference state points
  into the bytes that follow the array; a by-value state of type
  \<^verbatim>\<open>INTERNAL\<close> is the result of the deserialization function, which must
  exist, on those bytes (with a dummy second argument); any other by-value
  state is taken as it is.  Bytes that were never written cannot be read.
\<close>

definition restore_state ::
  "('d::zero) AggState \<Rightarrow> nat \<Rightarrow> 'd AggStatePerGroupData \<Rightarrow> 'd option
     \<Rightarrow> error + ('d AggState \<times> 'd AggStatePerGroupData)" where
  "restore_state aggstate aggno pg bytes =
     (let pt = pertrans aggstate aggno in
      if transValueIsNull pg then Inr (aggstate, pg)
      else if \<not> transtypeByVal pt then
        (case bytes of
           None \<Rightarrow> Inl UndefinedBehaviour
         | Some b \<Rightarrow> Inr (aggstate, pg\<lparr>transValue := b\<rparr>))
      else if aggtranstype_internal pt then
        (if \<not> deserial_func_valid pt then Inl (Elog ''could not deserial transition value'')
         else
           (case bytes of
              None \<Rightarrow> Inl UndefinedBehaviour
            | Some b \<Rightarrow>
                (let fc0 = deserial_func_fcinfo pt;
                     fc = fc0\<lparr>arg := (arg fc0)(0 := b, 1 := 0),
                              argnull := (argnull fc0)(0 := False, 1 := False)\<rparr>;
                     (v, resnull) = fn_addr (deserial_func pt) fc
                 in Inr (aggstate\<lparr>pertrans := (pertrans aggstate)
                                    (aggno := pt\<lparr>deserial_func_fcinfo := fc\<lparr>isnull := resnull\<rparr>\<rparr>),
                                  invoked := invoked aggstate @ [(H_deserialfn, fc)]\<rparr>,
                         pg\<lparr>transValue := v\<rparr>))))
      else Inr (aggstate, pg))"

text \<open>
  The merge loop (lines 2762-2810): the incoming state of each slot is
  restored, put into argument 1 of the combine frame, and combined into the
  entry's state by \<^verbatim>\<open>combine_transition\<close>.
\<close>

fun merge_states ::
  "('d::zero) SpillRecord \<Rightarrow> nat list \<Rightarrow> 'd AggState \<times> (nat \<Rightarrow> 'd AggStatePerGroupData)
     \<Rightarrow> error + ('d AggState \<times> (nat \<Rightarrow> 'd AggStatePerGroupData))" where
  "merge_states r [] st = Inr st"
| "merge_states r (aggno # rest) (aggstate, pergroup) =
     bindE (restore_state aggstate aggno (rec_pergroup r aggno) (rec_payload r aggno))
       (\<lambda>(agg1, merge_pergroupstate).
          (let pt = pertrans agg1 aggno;
               fc = combfn_fcinfo pt;
               pt1 = pt\<lparr>combfn_fcinfo := fc
                       \<lparr>arg := (arg fc)(1 := transValue merge_pergroupstate),
                        argnull := (argnull fc)(1 := transValueIsNull merge_pergroupstate)\<rparr>\<rparr>;
               (pt2, pg2, calls) = combine_transition pt1 (pergroup aggno)
           in merge_states r rest
                (agg1\<lparr>pertrans := (pertrans agg1)(aggno := pt2),
                       invoked := invoked agg1 @ calls\<rparr>,
                 pergroup(aggno := pg2))))"

text \<open>The loop of the new-entry branch (lines 2912-2958).\<close>

fun adopt_states ::
  "('d::zero) SpillRecord \<Rightarrow> nat list \<Rightarrow> 'd AggState \<times> (nat \<Rightarrow> 'd AggStatePerGroupData)
     \<Rightarrow> error + ('d AggState \<times> (nat \<Rightarrow> 'd AggStatePerGroupData))" where
  "adopt_states r [] st = Inr st"
| "adopt_states r (aggno # rest) (aggstate, groupstate) =
     bindE (restore_state aggstate aggno (groupstate aggno) (rec_payload r aggno))
       (\<lambda>(agg1, pg). adopt_states r rest (agg1, groupstate(aggno := pg)))"

text \<open>
  The overflow branch (lines 2817-2893) for a record read from batch file
  \<open>fi\<close> of the spill set at address \<open>sa\<close>: the first overflow of the file
  allocates its child spill set, one level down and with one more batch slot
  than the set being read, pointing back to that set; the record then goes,
  unchanged, to batch file \<^verbatim>\<open>hashkey % spillset->num_files\<close> of the child.
  \<^verbatim>\<open>level\<close> and \<^verbatim>\<open>num_files\<close> are \<^verbatim>\<open>int\<close> fields: \<^verbatim>\<open>level + 1\<close> and
  \<^verbatim>\<open>num_files + 1\<close> overflow, which is undefined, when the field holds
  \<open>2^31 - 1\<close>.  The allocations are taken to succeed.
\<close>

definition spill_to_child ::
  "'d TupleHashTable \<Rightarrow> nat \<Rightarrow> nat \<Rightarrow> 'd SpillRecord \<Rightarrow> error + 'd TupleHashTable" where
  "spill_to_child ht sa fi r =
     (case tablecxt ht sa of
        None \<Rightarrow> Inl NullPointer
      | Some spill_set' \<Rightarrow>
          (if fi \<ge> length (spill_file spill_set') then Inl UndefinedBehaviour
           else case spill_file spill_set' ! fi of
             None \<Rightarrow> Inl NullPointer
           | Some sfile \<Rightarrow>
               bindE
                 (if \<not> file_spilled sfile then
                    (if 2 ^ 31 - 1 \<le> level spill_set' \<or> 2 ^ 31 - 1 \<le> num_files spill_set'
                     then Inl UndefinedBehaviour else
                     let ca = tablecxt_used ht;
                         spillset = \<lparr>level = level spill_set' + 1,
                                     num_files = num_files spill_set' + 1,
                                     parent_index = current_file spill_set',
                                     parent_spill_set = Some sa,
                                     current_file = 0,
                                     spill_file = replicate (nat (num_files spill_set' + 1)) None\<rparr>;
                         sfile' = sfile\<lparr>file_spilled := True, child_spill_set := Some ca\<rparr>
                     in Inr (ht\<lparr>tablecxt := (tablecxt ht)
                                  (sa := Some (spill_set'\<lparr>spill_file := (spill_file spill_set')[fi := Some sfile']\<rparr>),
                                   ca := Some spillset),
                                tablecxt_used := Suc ca\<rparr>, ca))
                  else (case child_spill_set sfile of
                          None \<Rightarrow> Inl NullPointer
                        | Some ca \<Rightarrow> Inr (ht, ca)))
                 (\<lambda>(ht1, ca).
                    case tablecxt ht1 ca of
                      None \<Rightarrow> Inl NullPointer
                    | Some spillset \<Rightarrow>
                        bindE (u32_mod (rec_hash r) (num_files spillset)) (\<lambda>file_index.
                          bindE (append_record spillset file_index r) (\<lambda>spillset'.
                            Inr (ht1\<lparr>tablecxt := (tablecxt ht1)(ca := Some spillset')\<rparr>))))))"

text \<open>Counting a record as read on batch file \<open>fi\<close> of the set at \<open>sa\<close>.\<close>

definition count_read :: "'d TupleHashTable \<Rightarrow> nat \<Rightarrow> nat \<Rightarrow> error + 'd TupleHashTable" where
  "count_read ht sa fi =
     (case tablecxt ht sa of
        None \<Rightarrow> Inl NullPointer
      | Some ss \<Rightarrow>
          (if fi \<ge> length (spill_file ss) then Inl UndefinedBehaviour
           else case spill_file ss ! fi of
             None \<Rightarrow> Inl NullPointer
           | Some f \<Rightarrow>
               Inr (ht\<lparr>tablecxt := (tablecxt ht)
                         (sa := Some (ss\<lparr>spill_file := (spill_file ss)
                                  [fi := Some (f\<lparr>ntups_read := ntups_read f + 1\<rparr>)]\<rparr>))\<rparr>)))"

text \<open>
  One iteration of the read loop (lines 2720-2963) for a record \<open>r\<close> that
  was read: it is counted, probed with its stored hash, and then merged into
  the entry found, or spilled to the child set when the table refuses the
  insert, or adopted as a new entry.
\<close>

definition load_record ::
  "nat \<Rightarrow> nat \<Rightarrow> ('d::zero) SpillRecord \<Rightarrow> 'd AggState \<times> 'd TupleHashTable
     \<Rightarrow> error + ('d AggState \<times> 'd TupleHashTable)" where
  "load_record sa fi r st =
     (case st of (aggstate, ht0) \<Rightarrow>
      bindE (count_read ht0 sa fi) (\<lambda>ht.
        case tuplehash_insert_with_key ht (rec_tuple r) (rec_hash r) of (ht1, entry, found) \<Rightarrow>
          if found then
            (case entry of
               None \<Rightarrow> Inl NullPointer
             | Some e \<Rightarrow>
                 if numtrans aggstate > 0 then
                   (case additional e of
                      None \<Rightarrow> Inl NullPointer
                    | Some pergroup \<Rightarrow>
                        bindE (merge_states r [0 ..< nat (numtrans aggstate)] (aggstate, pergroup))
                          (\<lambda>(agg1, pergroup').
                             Inr (agg1, store_entry (e\<lparr>additional := Some pergroup'\<rparr>) ht1)))
                 else Inr (aggstate, ht1))
          else
            (case entry of
               None \<Rightarrow> bindE (spill_to_child ht1 sa fi r) (\<lambda>ht2. Inr (aggstate, ht2))
             | Some e \<Rightarrow>
                 if numtrans aggstate > 0 then
                   bindE (adopt_states r [0 ..< nat (numtrans aggstate)] (aggstate, rec_pergroup r))
                     (\<lambda>(agg1, groupstate).
                        Inr (agg1, store_entry (e\<lparr>firstTuple := rec_tuple r,
                                                   additional := Some groupstate\<rparr>) ht1))
                 else Inr (aggstate, store_entry (e\<lparr>firstTuple := rec_tuple r\<rparr>) ht1))))"

fun load_records ::
  "nat \<Rightarrow> nat \<Rightarrow> ('d::zero) SpillRecord list \<Rightarrow> 'd AggState \<times> 'd TupleHashTable
     \<Rightarrow> error + ('d AggState \<times> 'd TupleHashTable)" where
  "load_records sa fi [] st = Inr st"
| "load_records sa fi (r # rest) st = bindE (load_record sa fi r st) (load_records sa fi rest)"

text \<open>
  The end of the read loop (lines 2693-2712), when the file is exhausted: the
  counts of records written and read must agree, and if the file overflowed,
  the table's current spill set becomes the file's child set.
\<close>

definition read_done :: "nat \<Rightarrow> nat \<Rightarrow> 'd TupleHashTable \<Rightarrow> error + 'd TupleHashTable" where
  "read_done sa fi ht =
     (case tablecxt ht sa of
        None \<Rightarrow> Inl NullPointer
      | Some ss \<Rightarrow>
          (if fi \<ge> length (spill_file ss) then Inl UndefinedBehaviour
           else case spill_file ss ! fi of
             None \<Rightarrow> Inl NullPointer
           | Some f \<Rightarrow>
               if ntups_read f \<noteq> ntups_write f then Inl (Elog ''data corrupted in spill file'')
               else if file_spilled f then Inr (ht\<lparr>spill_set := child_spill_set f\<rparr>)
               else Inr ht))"

text \<open>
  Reloading batch file \<open>fi\<close> of the spill set at \<open>sa\<close>: rewind, process its
  records in order, finish.
\<close>

definition load_file ::
  "nat \<Rightarrow> nat \<Rightarrow> ('d::zero) AggState \<times> 'd TupleHashTable
     \<Rightarrow> error + ('d AggState \<times> 'd TupleHashTable)" where
  "load_file sa fi st =
     (case tablecxt (snd st) sa of
        None \<Rightarrow> Inl NullPointer
      | Some ss \<Rightarrow>
          (if fi \<ge> length (spill_file ss) then Inl UndefinedBehaviour
           else case spill_file ss ! fi of
             None \<Rightarrow> Inl NullPointer
           | Some f \<Rightarrow>
               bindE (load_records sa fi (buffile f) st) (\<lambda>(agg1, ht1).
                 bindE (read_done sa fi ht1) (\<lambda>ht2. Inr (agg1, ht2)))))"

text \<open>
  Choosing the file (lines 2662-2678): starting at \<^verbatim>\<open>current_file\<close>, slots
  that hold no file are skipped; the result is the index of the first file
  found, if any.
\<close>

fun first_file :: "'a option list \<Rightarrow> nat \<Rightarrow> nat option" where
  "first_file [] i = None"
| "first_file (None # rest) i = first_file rest (Suc i)"
| "first_file (Some f # rest) i = Some i"

text \<open>
  \<^verbatim>\<open>LoadHybridHashtable\<close> (lines 2642-2973).  The \<^verbatim>\<open>goto RETRY\<close> that
  follows the parent pointer of an exhausted spill set is the recursive
  call; a chain of parents that never ends would make it run forever, which
  is the value \<open>None\<close>.
\<close>

partial_function (option) LoadHybridHashtable ::
  "('d::zero) AggState \<times> 'd TupleHashTable
     \<Rightarrow> (error + ('d AggState \<times> 'd TupleHashTable)) option" where
  "LoadHybridHashtable st =
     (case st of (aggstate, ht) \<Rightarrow>
      if \<not> spilled ht then Some (Inr st)
      else case spill_set ht of
        None \<Rightarrow> Some (Inr st)
      | Some sa \<Rightarrow>
          (case tablecxt ht sa of
             None \<Rightarrow> Some (Inl NullPointer)
           | Some ss \<Rightarrow>
               if current_file ss < num_files ss then
                 (if length (spill_file ss) < nat (num_files ss) \<or> current_file ss < 0
                  then Some (Inl UndefinedBehaviour)
                  else case first_file (drop (nat (current_file ss)) (take (nat (num_files ss)) (spill_file ss)))
                              (nat (current_file ss)) of
                    None \<Rightarrow>
                      LoadHybridHashtable
                        (aggstate,
                         ht\<lparr>spill_set := parent_spill_set ss,
                            tablecxt := (tablecxt ht)(sa := Some (ss\<lparr>current_file := num_files ss\<rparr>))\<rparr>)
                  | Some fi \<Rightarrow>
                      Some (load_file sa fi
                              (aggstate,
                               ht\<lparr>tablecxt := (tablecxt ht)
                                     (sa := Some (ss\<lparr>current_file := int fi + 1\<rparr>))\<rparr>)))
               else LoadHybridHashtable (aggstate, ht\<lparr>spill_set := parent_spill_set ss\<rparr>)))"

section \<open>The orchestrator: ExecAgg and its retrieval loops\<close>

text \<open>
  \<^verbatim>\<open>ExecAgg\<close> (lines 3000-3031) returns the next output row or \<^verbatim>\<open>NULL\<close>.  It
  dispatches on the strategy of the current phase to
  \<^verbatim>\<open>agg_retrieve_direct\<close> (lines 3036-3390), or to \<^verbatim>\<open>agg_fill_hash_table\<close>
  (lines 3396-3592) and \<^verbatim>\<open>agg_retrieve_hash_table\<close> (lines 3597-3725).  These
  functions own the flags and cursors of the node: \<^verbatim>\<open>agg_done\<close>,
  \<^verbatim>\<open>input_done\<close>, \<^verbatim>\<open>table_filled\<close>, \<^verbatim>\<open>projected_set\<close>,
  \<^verbatim>\<open>current_phase\<close>, \<^verbatim>\<open>grp_firstTuple\<close>, \<^verbatim>\<open>sort_in\<close> and
  \<^verbatim>\<open>sort_out\<close>.  No other function of the file assigns them after
  \<^verbatim>\<open>ExecInitAgg\<close>, except \<^verbatim>\<open>ExecReScanAgg\<close>.

  The functions they call to initialise, advance, finalise and project the
  transition states, and the helpers of other files (expression evaluation,
  tuple comparison, the hash table iterator, the redistribution buffer of
  parallel workers), work on the rest of the node.  They enter the model as
  a record of operations on a work area, so that every result below holds
  for whatever these operations compute.
\<close>

subsection \<open>Phases, the work area and the node\<close>











subsection \<open>select_current_set, initialize_phase, fetch_input_tuple\<close>






subsection \<open>agg_retrieve_hash_table\<close>









subsection \<open>agg_retrieve_direct\<close>
























subsection \<open>agg_fill_hash_table\<close>







subsection \<open>ExecAgg\<close>


section \<open>Step sequences and example data\<close>

text \<open>
  A group's lifetime as a sequence of steps on its per-group state: each step
  is one call of \<^verbatim>\<open>advance_transition_function\<close>,
  \<^verbatim>\<open>advance_combine_function\<close> or \<^verbatim>\<open>combine_transition\<close>, with whatever
  the per-transition slot (frames and functions) holds at that moment.
\<close>

datatype StepKind = Transition | Combine | ReloadCombine

fun apply_step :: "StepKind \<times> 'd AggStatePerTransData \<Rightarrow> 'd AggStatePerGroupData \<Rightarrow> 'd AggStatePerGroupData" where
  "apply_step (Transition, ptrans) pg = fst (snd (advance_transition_function ptrans pg))"
| "apply_step (Combine, ptrans) pg = fst (snd (advance_combine_function ptrans pg))"
| "apply_step (ReloadCombine, ptrans) pg = fst (snd (combine_transition ptrans pg))"

fun run_steps :: "(StepKind \<times> 'd AggStatePerTransData) list \<Rightarrow> 'd AggStatePerGroupData \<Rightarrow> 'd AggStatePerGroupData" where
  "run_steps [] pg = pg"
| "run_steps (s # ss) pg = run_steps ss (apply_step s pg)"

text \<open>
  Example data: integer datums, a summing and a null-returning support
  function, a slot with one input column, one aggregate.
\<close>

definition ex_sum :: "int PGFunction" where
  "ex_sum fc = (arg fc 0 + arg fc 1, False)"

definition ex_null :: "int PGFunction" where
  "ex_null fc = (0, True)"

definition ex_frame :: "int \<Rightarrow> bool \<Rightarrow> int FunctionCallInfoData" where
  "ex_frame v n = \<lparr>arg = (\<lambda>i. if i = 1 then v else 0), argnull = (\<lambda>i. i = 1 \<and> n), isnull = False\<rparr>"

definition ex_pertrans :: "int PGFunction \<Rightarrow> bool \<Rightarrow> int \<Rightarrow> bool \<Rightarrow> int \<Rightarrow> int AggStatePerTransData" where
  "ex_pertrans f strict v n nsort =
     \<lparr>numInputs = 1, numTransInputs = 1, inputoff = 0,
      serial_func_valid = False, deserial_func_valid = False, aggtranstype_internal = False,
      aggfilter = None, aggdirectargs = [], serialfn_oid_valid = False,
      transfn = \<lparr>fn_addr = f, fn_strict = strict\<rparr>,
      serialfn = \<lparr>fn_addr = f, fn_strict = strict\<rparr>,
      combfn = \<lparr>fn_addr = f, fn_strict = strict\<rparr>,
      serial_func = \<lparr>fn_addr = f, fn_strict = strict\<rparr>,
      deserial_func = \<lparr>fn_addr = f, fn_strict = strict\<rparr>,
      numSortCols = nsort, numDistinctCols = nsort,
      initValue = 0, initValueIsNull = True, transtypeByVal = True,
      sortstates = (\<lambda>_. Some (DatumSort [(2, False), (1, False), (2, False)])),
      transfn_fcinfo = ex_frame v n, serialfn_fcinfo = ex_frame v n, combfn_fcinfo = ex_frame v n,
      serial_func_fcinfo = ex_frame v n, deserial_func_fcinfo = ex_frame v n,
      sort_datums = sort_key fst, sort_tuples = (\<lambda>ts. ts),
      abbrev_key = (\<lambda>v. v), abbrev_tuple = (\<lambda>_. 0),
      equalfn = (\<lambda>a b. a = b), distinct_match = (\<lambda>a b. a = b)\<rparr>"

definition ex_pergroup :: "int \<Rightarrow> bool \<Rightarrow> bool \<Rightarrow> int AggStatePerGroupData" where
  "ex_pergroup v n notrans = \<lparr>transValue = v, transValueIsNull = n, noTransValue = notrans\<rparr>"

definition ex_slot :: "int \<Rightarrow> int TupleTableSlot" where
  "ex_slot v = \<lparr>tts_values = (\<lambda>_. v), tts_isnull = (\<lambda>_. False), tts_nvalid = 1\<rparr>"

definition ex_aggstate :: "AggStrategy \<Rightarrow> int AggStatePerTransData \<Rightarrow> int AggState" where
  "ex_aggstate strat pt =
     \<lparr>aggstrategy = strat, aggsplit_skipfinal = False, numaggs = 1, numtrans = 1,
      peragg = (\<lambda>_. \<lparr>transno = 0, finalfn_valid = False,
                      finalfn = \<lparr>fn_addr = ex_sum, fn_strict = False\<rparr>, numFinalArgs = 1\<rparr>),
      pertrans = (\<lambda>_. pt), phase_numsets = 0, num_hashes = 1, current_set = 0,
      evalslot = ex_slot 5, evalproj = None, tmp_outertuple = ex_slot 5, out_outertuple = ex_slot 5,
      aggvalues = (\<lambda>_. 0), aggnulls = (\<lambda>_. True), invoked = []\<rparr>"

text \<open>A hash function that is constantly 8, a one-column row, an unsized table.\<close>
definition ex_hash8 :: "64 word \<Rightarrow> 64 word" where
  "ex_hash8 v = 8"

definition ex_row :: "(64 word) TupleTableSlot" where
  "ex_row = \<lparr>tts_values = (\<lambda>_. 7), tts_isnull = (\<lambda>_. False), tts_nvalid = 1\<rparr>"

definition ex_sizing :: HybridSizing where
  "ex_sizing = \<lparr>nbatches = 0, spilled = False, spill_set = None, nentries = 0,
                 set_hybrid = None, hybrid = False\<rparr>"

text \<open>
  A hybrid table with capacity \<open>E\<close> and four batches, an entry for key \<open>k\<close>
  holding the state \<open>v\<close>, and a per-hash descriptor keyed on the first
  input column.
\<close>
definition ex_table :: "int \<Rightarrow> int TupleHashEntryData list \<Rightarrow> int TupleHashTable" where
  "ex_table E entries =
     \<lparr>nbatches = 4, spilled = False, spill_set = None, nentries = word_of_int E,
      set_hybrid = Some (E, 4, True), hybrid = True,
      hashtab = entries, tablecxt = (\<lambda>_. None), tablecxt_used = 0,
      hash_key = (\<lambda>key. case key of [Some v] \<Rightarrow> word_of_int v | _ \<Rightarrow> 0)\<rparr>"

definition ex_entry :: "int \<Rightarrow> int \<Rightarrow> int TupleHashEntryData" where
  "ex_entry k v =
     \<lparr>firstTuple = [Some k],
      additional = Some (\<lambda>_. \<lparr>transValue = v, transValueIsNull = False, noTransValue = False\<rparr>),
      hash = word_of_int k\<rparr>"

definition ex_perhash :: "int TupleHashTable \<Rightarrow> int AggStatePerHashData" where
  "ex_perhash ht = \<lparr>hashtable = ht, numhashGrpCols = 1, hashGrpColIdxInput = (\<lambda>_. 1)\<rparr>"

text \<open>The error of the failed retry in \<^verbatim>\<open>lookup_hash_entry\<close>.\<close>

definition not_found_error :: error where
  "not_found_error = Elog ''could not find entry in hybrid-hashtable''"

text \<open>
  The notions the reload claim speaks of.  The capacity of a hybrid table and
  its resident keys; the records of a batch file that miss and cannot be
  inserted when the file is read in order (a record whose key is resident
  hits; a record whose key is new is refused when the table is at capacity
  and becomes resident otherwise); the child spill set a batch file points
  to; the records held by a batch of a spill set; and the records routed to
  batch \<open>i\<close> of the child of batch file \<open>fi\<close> of the set at \<open>sa\<close>.
\<close>

definition hybrid_capacity :: "'d TupleHashTable \<Rightarrow> int option" where
  "hybrid_capacity ht = (case set_hybrid ht of Some (E, B, True) \<Rightarrow> Some E | _ \<Rightarrow> None)"

definition table_keys :: "'d TupleHashTable \<Rightarrow> 'd option list list" where
  "table_keys ht = map firstTuple (hashtab ht)"

definition table_full :: "int option \<Rightarrow> 'k list \<Rightarrow> bool" where
  "table_full cap keys = (case cap of Some E \<Rightarrow> int (length keys) \<ge> E | None \<Rightarrow> False)"

fun refused_records :: "int option \<Rightarrow> 'd option list list \<Rightarrow> 'd SpillRecord list \<Rightarrow> 'd SpillRecord list" where
  "refused_records cap keys [] = []"
| "refused_records cap keys (r # rs) =
     (if rec_tuple r \<in> set keys then refused_records cap keys rs
      else if (case cap of Some E \<Rightarrow> int (length keys) \<ge> E | None \<Rightarrow> False)
           then r # refused_records cap keys rs
           else refused_records cap (keys @ [rec_tuple r]) rs)"

definition child_of :: "'d TupleHashTable \<Rightarrow> nat \<Rightarrow> nat \<Rightarrow> nat option" where
  "child_of ht sa fi =
     (case tablecxt ht sa of
        None \<Rightarrow> None
      | Some ss \<Rightarrow>
          if fi < length (spill_file ss) then
            (case spill_file ss ! fi of
               None \<Rightarrow> None
             | Some f \<Rightarrow> if file_spilled f then child_spill_set f else None)
          else None)"

definition batch_records :: "'d TupleHashTable \<Rightarrow> nat \<Rightarrow> nat \<Rightarrow> 'd SpillRecord list" where
  "batch_records ht a i =
     (case tablecxt ht a of
        None \<Rightarrow> []
      | Some ss \<Rightarrow>
          if i < length (spill_file ss) then
            (case spill_file ss ! i of None \<Rightarrow> [] | Some f \<Rightarrow> buffile f)
          else [])"

definition routed :: "'d TupleHashTable \<Rightarrow> nat \<Rightarrow> nat \<Rightarrow> nat \<Rightarrow> 'd SpillRecord list" where
  "routed ht sa fi i = (case child_of ht sa fi of None \<Rightarrow> [] | Some ca \<Rightarrow> batch_records ht ca i)"



text \<open>
  What holds of the heap while batch file \<open>fi\<close> of the set at \<open>sa\<close> (with
  \<open>B\<close> slots, at level \<open>L\<close>) is being read: addresses from
  \<open>tablecxt_used\<close> on are free, and once the file has overflowed, its child
  set is allocated, distinct from its parent, and has \<open>B + 1\<close> slots, level
  \<open>L + 1\<close> and the parent pointer \<open>sa\<close>.
\<close>

definition reload_inv :: "nat \<Rightarrow> nat \<Rightarrow> int \<Rightarrow> int \<Rightarrow> 'd TupleHashTable \<Rightarrow> bool" where
  "reload_inv sa fi B L ht =
     (sa < tablecxt_used ht \<and> (\<forall>a \<ge> tablecxt_used ht. tablecxt ht a = None) \<and>
      (\<exists>ss f. tablecxt ht sa = Some ss \<and> num_files ss = B \<and> level ss = L \<and>
          fi < length (spill_file ss) \<and> spill_file ss ! fi = Some f \<and>
          (file_spilled f \<longrightarrow>
             (\<exists>ca child. child_spill_set f = Some ca \<and> ca \<noteq> sa \<and> ca < tablecxt_used ht \<and>
                 tablecxt ht ca = Some child \<and> num_files child = B + 1 \<and> level child = L + 1 \<and>
                 parent_spill_set child = Some sa \<and> length (spill_file child) = nat (B + 1)))))"

text \<open>
  What a reload needs in order not to fail on a record for a reason of its
  own.  A stored per-group state can be restored when it is null, or by
  value and not of type \<^verbatim>\<open>INTERNAL\<close>, or when its bytes are there (and,
  for \<^verbatim>\<open>INTERNAL\<close>, the deserialization function is); this depends on
  three fields of the per-transition slot only.  \<open>batch_file\<close> is the batch
  file in slot \<open>i\<close> of the spill set at \<open>a\<close>.  While the file \<open>fi\<close> of the
  set at \<open>sa\<close> is read, the node keeps its number of transition slots and
  their three fields, every entry of the table has its array of per-group
  states, and the file has the counts \<open>nr\<close> read and \<open>nw\<close> written.
\<close>

definition trans_types :: "'d AggStatePerTransData \<Rightarrow> bool \<times> bool \<times> bool" where
  "trans_types pt = (transtypeByVal pt, aggtranstype_internal pt, deserial_func_valid pt)"

definition restorable :: "'d AggStatePerTransData \<Rightarrow> 'd AggStatePerGroupData \<Rightarrow> 'd option \<Rightarrow> bool" where
  "restorable pt pg bytes =
     (transValueIsNull pg \<or>
      (if transtypeByVal pt
       then (aggtranstype_internal pt \<longrightarrow> deserial_func_valid pt \<and> bytes \<noteq> None)
       else bytes \<noteq> None))"

definition batch_file :: "'d TupleHashTable \<Rightarrow> nat \<Rightarrow> nat \<Rightarrow> 'd SpillFile option" where
  "batch_file ht a i =
     (case tablecxt ht a of
        None \<Rightarrow> None
      | Some ss \<Rightarrow> if i < length (spill_file ss) then spill_file ss ! i else None)"

definition reload_ready ::
  "nat \<Rightarrow> nat \<Rightarrow> 32 word \<Rightarrow> 32 word \<Rightarrow> 'd AggState \<Rightarrow> 'd AggState \<Rightarrow> 'd TupleHashTable \<Rightarrow> bool" where
  "reload_ready sa fi nr nw agg0 agg ht =
     (numtrans agg = numtrans agg0 \<and>
      (\<forall>a. trans_types (pertrans agg a) = trans_types (pertrans agg0 a)) \<and>
      (0 < numtrans agg \<longrightarrow> (\<forall>e \<in> set (hashtab ht). additional e \<noteq> None)) \<and>
      (\<exists>f. batch_file ht sa fi = Some f \<and> ntups_read f = nr \<and> ntups_write f = nw))"

text \<open>
  A record for key \<open>k\<close> with state \<open>v\<close> (its hash is \<open>k\<close>), a root spill
  set of four slots whose first batch file holds the given records, a spilled
  table of capacity one over it, and a batch of five records: the first fills
  the table, the second, third and fifth are refused, the fourth is merged.
\<close>

definition ex_record :: "int \<Rightarrow> int \<Rightarrow> int SpillRecord" where
  "ex_record k v =
     \<lparr>rec_hash = word_of_int k, rec_tuple = [Some k],
      rec_pergroup = (\<lambda>_. \<lparr>transValue = v, transValueIsNull = False, noTransValue = False\<rparr>),
      rec_payload = (\<lambda>_. None)\<rparr>"

definition ex_root_set :: "int SpillRecord list \<Rightarrow> int SpillSet" where
  "ex_root_set recs =
     \<lparr>level = 0, num_files = 4, parent_index = - 1, parent_spill_set = None, current_file = 1,
      spill_file = [Some \<lparr>ntups_read = 0, ntups_write = word_of_int (int (length recs)),
                           file_spilled = False, child_spill_set = None, buffile = recs\<rparr>,
                    None, None, None]\<rparr>"

definition ex_spilled_table :: "int SpillRecord list \<Rightarrow> int TupleHashTable" where
  "ex_spilled_table recs =
     (ex_table 1 [])\<lparr>spilled := True, spill_set := Some 0,
                      tablecxt := (\<lambda>_. None)(0 := Some (ex_root_set recs)), tablecxt_used := 1\<rparr>"

definition ex_batch :: "int SpillRecord list" where
  "ex_batch = [ex_record 4 10, ex_record 8 20, ex_record 12 40, ex_record 4 30, ex_record 8 50]"








section \<open>Properties of the transition machinery\<close>

lemma any_argnull_from_iff:
  "any_argnull_from nulls i k = (\<exists>j. i \<le> j \<and> j < i + k \<and> nulls j)"
proof (induction k arbitrary: i)
  case 0
  then show ?case by simp
next
  case (Suc k)
  have "(nulls i \<or> (\<exists>j. Suc i \<le> j \<and> j < Suc i + k \<and> nulls j))
      = (\<exists>j. i \<le> j \<and> j < i + Suc k \<and> nulls j)" (is "?L = ?R")
  proof
    assume ?L
    then show ?R
    proof
      assume "nulls i" then show ?R by (intro exI [of _ i]) simp
    next
      assume "\<exists>j. Suc i \<le> j \<and> j < Suc i + k \<and> nulls j"
      then obtain j where "Suc i \<le> j" "j < Suc i + k" "nulls j" by blast
      then show ?R by (intro exI [of _ j]) simp
    qed
  next
    assume ?R
    then obtain j where j: "i \<le> j" "j < i + Suc k" "nulls j" by blast
    show ?L
    proof (cases "j = i")
      case True with j show ?thesis by simp
    next
      case False
      with j have "Suc i \<le> j" "j < Suc i + k" by simp_all
      with j show ?thesis by blast
    qed
  qed
  moreover have "any_argnull_from nulls i (Suc k) = (nulls i \<or> any_argnull_from nulls (Suc i) k)"
    by simp
  ultimately show ?case using Suc.IH [of "Suc i"] by blast
qed

lemma any_trans_input_null_iff:
  "any_trans_input_null ptrans =
     (\<exists>i. 1 \<le> i \<and> int i \<le> numTransInputs ptrans \<and> argnull (transfn_fcinfo ptrans) i)"
proof -
  have "\<And>j. (1 \<le> j \<and> j < 1 + nat (numTransInputs ptrans)) = (1 \<le> j \<and> int j \<le> numTransInputs ptrans)"
    by auto
  then have "(\<exists>j. 1 \<le> j \<and> j < 1 + nat (numTransInputs ptrans) \<and> argnull (transfn_fcinfo ptrans) j)
      = (\<exists>j. 1 \<le> j \<and> int j \<le> numTransInputs ptrans \<and> argnull (transfn_fcinfo ptrans) j)"
    by blast
  then show ?thesis
    unfolding any_trans_input_null_def any_argnull_from_iff .
qed



lemma invoke_and_store_noTransValue:
  "noTransValue (fst (snd (invoke_and_store h f fc pg))) = noTransValue pg"
  by (simp add: invoke_and_store_def Let_def split: prod.splits)

lemma step_noTransValue:
  assumes "noTransValue (apply_step s pg)"
  shows "noTransValue pg"
proof (cases s)
  case (Pair k pt)
  show ?thesis using assms unfolding Pair
    by (cases k)
       (auto simp: advance_transition_function_def advance_combine_function_def combine_transition_def
          invoke_and_store_def Let_def split: if_splits prod.splits)
qed

lemma run_steps_noTransValue:
  "noTransValue (run_steps ss pg) \<Longrightarrow> noTransValue pg"
  by (induction ss arbitrary: pg) (auto dest: step_noTransValue)

lemma run_steps_append: "run_steps (xs @ ys) pg = run_steps ys (run_steps xs pg)"
  by (induction xs arbitrary: pg) auto



lemma bindE_Inr_iff: "(bindE m f = Inr y) = (\<exists>x. m = Inr x \<and> f x = Inr y)"
  by (cases m) (simp_all add: bindE_def)

text \<open>
  C1.  With a strict transition function, advancing a per-group state is a
  three-way case split: a null among the transition arguments
  \<open>argv[1..numTransInputs]\<close> leaves the state unchanged; otherwise a state with
  \<open>noTransValue\<close> takes \<open>argv[1]\<close> as its value, clears both flags and does
  not call the transition function; otherwise a state whose value is null is
  left unchanged.  In none of the three cases is anything invoked.
\<close>

theorem advance_transition_function_strict_cases:
  assumes "fn_strict (transfn ptrans)"
  shows "((\<exists>i. 1 \<le> i \<and> int i \<le> numTransInputs ptrans \<and> argnull (transfn_fcinfo ptrans) i)
            \<longrightarrow> advance_transition_function ptrans pg = (ptrans, pg, []))
       \<and> (\<not> (\<exists>i. 1 \<le> i \<and> int i \<le> numTransInputs ptrans \<and> argnull (transfn_fcinfo ptrans) i)
            \<and> noTransValue pg
            \<longrightarrow> advance_transition_function ptrans pg =
                  (ptrans,
                   pg\<lparr>transValue := arg (transfn_fcinfo ptrans) 1,
                      transValueIsNull := False, noTransValue := False\<rparr>,
                   []))
       \<and> (\<not> (\<exists>i. 1 \<le> i \<and> int i \<le> numTransInputs ptrans \<and> argnull (transfn_fcinfo ptrans) i)
            \<and> \<not> noTransValue pg \<and> transValueIsNull pg
            \<longrightarrow> advance_transition_function ptrans pg = (ptrans, pg, []))"
  using assms
  by (auto simp: advance_transition_function_def any_trans_input_null_iff Let_def)

theorem advance_transition_function_strict_cases_witness:
  "advance_transition_function (ex_pertrans ex_sum True 5 True 0) (ex_pergroup 7 False False)
     = (ex_pertrans ex_sum True 5 True 0, ex_pergroup 7 False False, [])
   \<and> advance_transition_function (ex_pertrans ex_sum True 5 False 0) (ex_pergroup 0 True True)
     = (ex_pertrans ex_sum True 5 False 0, ex_pergroup 5 False False, [])
   \<and> advance_transition_function (ex_pertrans ex_sum True 5 False 0) (ex_pergroup 0 True False)
     = (ex_pertrans ex_sum True 5 False 0, ex_pergroup 0 True False, [])"
proof -
  have strict: "\<And>n. fn_strict (transfn (ex_pertrans ex_sum True 5 n 0))"
    by (simp add: ex_pertrans_def)
  have null1: "\<exists>i. 1 \<le> i \<and> int i \<le> numTransInputs (ex_pertrans ex_sum True 5 True 0)
                \<and> argnull (transfn_fcinfo (ex_pertrans ex_sum True 5 True 0)) i"
    by (rule exI [of _ 1]) (simp add: ex_pertrans_def ex_frame_def)
  have nonull: "\<not> (\<exists>i. 1 \<le> i \<and> int i \<le> numTransInputs (ex_pertrans ex_sum True 5 False 0)
                \<and> argnull (transfn_fcinfo (ex_pertrans ex_sum True 5 False 0)) i)"
    by (simp add: ex_pertrans_def ex_frame_def)
  have a1: "arg (transfn_fcinfo (ex_pertrans ex_sum True 5 False 0)) 1 = 5"
    by (simp add: ex_pertrans_def ex_frame_def)
  show ?thesis
    using advance_transition_function_strict_cases [OF strict, of True "ex_pergroup 7 False False"]
          advance_transition_function_strict_cases [OF strict, of False "ex_pergroup 0 True True"]
          advance_transition_function_strict_cases [OF strict, of False "ex_pergroup 0 True False"]
          null1 nonull a1
    by (simp add: ex_pergroup_def)
qed

text \<open>
  C2, as stated, fails on the split-mode input path: with a strict combine
  function, a non-null incoming state and \<open>noTransValue\<close> set,
  \<^verbatim>\<open>advance_combine_function\<close> adopts the incoming state (here 5) and invokes
  nothing.
\<close>

theorem advance_combine_function_short_circuits:
  "fn_strict (transfn (ex_pertrans ex_sum True 5 False 0))
   \<and> \<not> argnull (transfn_fcinfo (ex_pertrans ex_sum True 5 False 0)) 1
   \<and> noTransValue (ex_pergroup 0 True True)
   \<and> advance_combine_function (ex_pertrans ex_sum True 5 False 0) (ex_pergroup 0 True True)
       = (ex_pertrans ex_sum True 5 False 0, ex_pergroup 5 False False, [])"
  by (simp add: advance_combine_function_def ex_pertrans_def ex_frame_def ex_pergroup_def Let_def)

text \<open>
  C2, amended.  On both paths a strict combine function with a null incoming
  state is a no-op.  On the hybrid reload path (\<^verbatim>\<open>combine_transition\<close>) every
  other step invokes the combine function exactly once, with the existing
  state as argument 0, whatever \<open>noTransValue\<close> is.  On the split-mode input
  path (\<^verbatim>\<open>advance_combine_function\<close>) a strict combine function meeting a
  state with \<open>noTransValue\<close> adopts the incoming state without an invocation;
  every other step invokes the combine function once with the existing state
  as argument 0.
\<close>

theorem combine_step_cases:
  "(fn_strict (combfn ptrans) \<and> argnull (combfn_fcinfo ptrans) 1
      \<longrightarrow> combine_transition ptrans pg = (ptrans, pg, []))
   \<and> (\<not> (fn_strict (combfn ptrans) \<and> argnull (combfn_fcinfo ptrans) 1)
      \<longrightarrow> (\<exists>fc. snd (snd (combine_transition ptrans pg)) = [(H_combfn, fc)]
              \<and> arg fc 0 = transValue pg \<and> argnull fc 0 = transValueIsNull pg
              \<and> arg fc 1 = arg (combfn_fcinfo ptrans) 1))
   \<and> (fn_strict (transfn ptrans) \<and> argnull (transfn_fcinfo ptrans) 1
      \<longrightarrow> advance_combine_function ptrans pg = (ptrans, pg, []))
   \<and> (fn_strict (transfn ptrans) \<and> \<not> argnull (transfn_fcinfo ptrans) 1 \<and> noTransValue pg
      \<longrightarrow> advance_combine_function ptrans pg =
            (ptrans, pg\<lparr>transValue := arg (transfn_fcinfo ptrans) 1,
                         transValueIsNull := False, noTransValue := False\<rparr>, []))
   \<and> (\<not> (fn_strict (transfn ptrans) \<and> (argnull (transfn_fcinfo ptrans) 1 \<or> noTransValue pg))
      \<longrightarrow> (\<exists>fc. snd (snd (advance_combine_function ptrans pg)) = [(H_transfn, fc)]
              \<and> arg fc 0 = transValue pg \<and> argnull fc 0 = transValueIsNull pg
              \<and> arg fc 1 = arg (transfn_fcinfo ptrans) 1))"
  by (auto simp: combine_transition_def advance_combine_function_def invoke_and_store_def Let_def
           split: prod.splits)

theorem combine_step_cases_witness:
  "combine_transition (ex_pertrans ex_sum True 5 True 0) (ex_pergroup 7 False False)
     = (ex_pertrans ex_sum True 5 True 0, ex_pergroup 7 False False, [])
   \<and> (\<exists>fc. snd (snd (combine_transition (ex_pertrans ex_sum True 5 False 0) (ex_pergroup 7 False True)))
             = [(H_combfn, fc)] \<and> arg fc 0 = 7 \<and> \<not> argnull fc 0 \<and> arg fc 1 = 5)
   \<and> advance_combine_function (ex_pertrans ex_sum True 5 True 0) (ex_pergroup 7 False False)
     = (ex_pertrans ex_sum True 5 True 0, ex_pergroup 7 False False, [])
   \<and> advance_combine_function (ex_pertrans ex_sum True 5 False 0) (ex_pergroup 0 True True)
     = (ex_pertrans ex_sum True 5 False 0, ex_pergroup 5 False False, [])
   \<and> (\<exists>fc. snd (snd (advance_combine_function (ex_pertrans ex_sum True 5 False 0) (ex_pergroup 7 False False)))
             = [(H_transfn, fc)] \<and> arg fc 0 = 7 \<and> \<not> argnull fc 0 \<and> arg fc 1 = 5)"
proof -
  have f: "fn_strict (combfn (ex_pertrans ex_sum True 5 True 0))"
          "argnull (combfn_fcinfo (ex_pertrans ex_sum True 5 True 0)) 1"
          "fn_strict (transfn (ex_pertrans ex_sum True 5 True 0))"
          "argnull (transfn_fcinfo (ex_pertrans ex_sum True 5 True 0)) 1"
          "fn_strict (transfn (ex_pertrans ex_sum True 5 False 0))"
          "\<not> argnull (transfn_fcinfo (ex_pertrans ex_sum True 5 False 0)) 1"
          "\<not> argnull (combfn_fcinfo (ex_pertrans ex_sum True 5 False 0)) 1"
          "arg (transfn_fcinfo (ex_pertrans ex_sum True 5 False 0)) 1 = 5"
          "arg (combfn_fcinfo (ex_pertrans ex_sum True 5 False 0)) 1 = 5"
    by (simp_all add: ex_pertrans_def ex_frame_def)
  show ?thesis
    using combine_step_cases [of "ex_pertrans ex_sum True 5 True 0" "ex_pergroup 7 False False"]
          combine_step_cases [of "ex_pertrans ex_sum True 5 False 0" "ex_pergroup 7 False True"]
          combine_step_cases [of "ex_pertrans ex_sum True 5 False 0" "ex_pergroup 0 True True"]
          combine_step_cases [of "ex_pertrans ex_sum True 5 False 0" "ex_pergroup 7 False False"]
          f
    by (simp add: ex_pergroup_def)
qed

text \<open>
  C9.  \<open>noTransValue\<close> is monotone over a group's lifetime: (re)initialising
  a state sets it to \<open>initValueIsNull\<close>, so it becomes true only from a null
  initial value; and along any sequence of transition, combine and reload
  combine steps, with arbitrary frames and functions, a state in which it is
  false at some point has it false ever after, whatever happens to
  \<open>transValueIsNull\<close>.
\<close>

theorem noTransValue_monotone:
  "noTransValue (snd (initialize_aggregate cur_set ptrans pg)) = initValueIsNull ptrans
   \<and> (\<not> noTransValue (run_steps before pg) \<longrightarrow> \<not> noTransValue (run_steps (before @ after) pg))"
  using run_steps_noTransValue [of after "run_steps before pg"]
  by (auto simp: initialize_aggregate_def run_steps_append)

theorem noTransValue_monotone_witness:
  "\<not> noTransValue (run_steps [(Transition, ex_pertrans ex_sum True 5 False 0)] (ex_pergroup 0 True True))
   \<and> transValueIsNull (run_steps ([(Transition, ex_pertrans ex_sum True 5 False 0)]
         @ [(Combine, ex_pertrans ex_sum True 5 False 0), (Transition, ex_pertrans ex_null True 5 False 0)])
         (ex_pergroup 0 True True))
   \<and> \<not> noTransValue (run_steps ([(Transition, ex_pertrans ex_sum True 5 False 0)]
         @ [(Combine, ex_pertrans ex_sum True 5 False 0), (Transition, ex_pertrans ex_null True 5 False 0)])
         (ex_pergroup 0 True True))"
proof -
  have a: "\<not> noTransValue (run_steps [(Transition, ex_pertrans ex_sum True 5 False 0)] (ex_pergroup 0 True True))"
    by (simp add: advance_transition_function_def any_trans_input_null_def ex_pertrans_def
          ex_frame_def ex_pergroup_def Let_def)
  have b: "transValueIsNull (run_steps ([(Transition, ex_pertrans ex_sum True 5 False 0)]
         @ [(Combine, ex_pertrans ex_sum True 5 False 0), (Transition, ex_pertrans ex_null True 5 False 0)])
         (ex_pergroup 0 True True))"
    by (simp add: advance_transition_function_def advance_combine_function_def invoke_and_store_def
          any_trans_input_null_def ex_pertrans_def ex_null_def ex_sum_def
          ex_frame_def ex_pergroup_def Let_def)
  from a b noTransValue_monotone [of 0 "ex_pertrans ex_sum True 5 False 0" "ex_pergroup 0 True True"
         "[(Transition, ex_pertrans ex_sum True 5 False 0)]"
         "[(Combine, ex_pertrans ex_sum True 5 False 0), (Transition, ex_pertrans ex_null True 5 False 0)]"]
  show ?thesis by blast
qed



section \<open>Properties of redistribution and sizing\<close>

lemma run_blocks_snoc:
  "run_blocks (bs @ [b]) v num nw r = b v num nw"
  by (induction bs arbitrary: r) simp_all

lemma drop_switch_blocks:
  "\<exists>bs. drop (switch_entry dt) (switch_blocks h) = bs @ [block_default h]"
  by (cases dt) (simp_all add: switch_blocks_def)

lemma ReDistributeHash_falls_through:
  assumes "0 < N" "N < 31"
  shows "ReDistributeHash dt N v h = Inr ((uint (ucast (h v) :: 32 word) mod 2 ^ nat N) mod N)"
proof -
  obtain bs where bs: "drop (switch_entry dt) (switch_blocks h) = bs @ [block_default h]"
    using drop_switch_blocks by blast
  have nonneg: "0 \<le> (uint (ucast (h v) :: 32 word) mod 2 ^ nat N) mod N"
    using assms by simp
  show ?thesis
    using assms nonneg
    by (simp add: ReDistributeHash_def bs run_blocks_snoc block_default_def Let_def)
qed

text \<open>
  C7, as stated, fails: with three workers and a key whose hash is 8, worker 2
  would keep the row according to \<open>8 mod 3 = 2\<close>, but the code sends it to
  worker 0, because it reduces the hash modulo \<open>2^3\<close> first.
\<close>

theorem ReDistributeData_not_hash_mod_workers:
  "ReDistributeData 2 3 1 ex_row ex_hash8 (OtherTypeOid 25) = Inr (Published 0 6)
   \<and> uint (ucast (ex_hash8 (tts_values ex_row 0)) :: 32 word) mod 3 = 2"
  by (simp add: ReDistributeData_def ReDistributeHash_def switch_blocks_def block_default_def
        ex_row_def ex_hash8_def bindE_def Let_def)

text \<open>
  C7, amended.  With \<open>N\<close> workers, \<open>0 < N < 31\<close>, and a key column whose
  type is handled by the hash function, the destination of a row is
  \<open>h = (hashfunc(value) mod 2^N) mod N\<close>, the hash being read as an unsigned
  32-bit number, and \<open>h = 0\<close> when the key is null; the row is kept locally
  exactly when \<open>h\<close> is the worker's own index, and is published for worker
  \<open>h\<close> otherwise.
\<close>

theorem ReDistributeData_routing:
  assumes "0 < N" and "N < 31"
  shows "ReDistributeData self N varattno slot hashfunc (OtherTypeOid t) =
           (let h = (if tts_isnull slot (varattno - 1) then 0
                     else (uint (ucast (hashfunc (tts_values slot (varattno - 1))) :: 32 word)
                             mod 2 ^ nat N) mod N)
            in if h = self then Inr KeptLocally else Inr (Published h (self * N + h)))"
  using assms ReDistributeHash_falls_through [OF assms]
  by (simp add: ReDistributeData_def bindE_def Let_def)

theorem ReDistributeData_routing_witness:
  "ReDistributeData 0 3 1 ex_row ex_hash8 (OtherTypeOid 25) = Inr KeptLocally
   \<and> ReDistributeData 1 3 1 ex_row ex_hash8 (OtherTypeOid 25) = Inr (Published 0 3)"
  using ReDistributeData_routing [of 3 0 1 ex_row ex_hash8 25]
        ReDistributeData_routing [of 3 1 1 ex_row ex_hash8 25]
  by (simp add: ex_row_def ex_hash8_def)

text \<open>
  C5, as stated for every \<open>work_mem\<close> and entry-size estimate, fails where
  the quotient does not fit the \<^verbatim>\<open>uint32\<close> field that holds it.  With
  \<open>work_mem\<close> at its largest setting, \<open>2147483647\<close> kB, and an entry of
  \<open>400\<close> bytes, \<open>\<lfloor>work_mem * 1024 / entrySize\<rfloor>\<close> is \<open>5497558136\<close>, beyond
  \<open>2^32\<close>; the conversion \<^verbatim>\<open>(uint32)nentries\<close> is undefined there and no
  table with that many entries is set up.
\<close>

theorem OptimizeHybridHashtableSize_quotient_out_of_range:
  "(sint (2147483647 :: 32 word) * 1024) div uint (400 :: 32 word) = 5497558136
   \<and> (2 :: int) ^ 32 \<le> 5497558136
   \<and> OptimizeHybridHashtableSize 2147483647 32 ex_sizing 400 1000000 = Inl UndefinedBehaviour"
  by (simp add: OptimizeHybridHashtableSize_def c_div_def Let_def)

text \<open>
  C5.  When hybrid mode is engaged with a non-zero entry size, a non-negative
  \<open>work_mem\<close> and a quotient that fits the \<^verbatim>\<open>uint32\<close> field, the maximum
  number of entries is \<open>E = \<lfloor>work_mem * 1024 / entrySize\<rfloor>\<close>, both in the
  table's field and as handed to the hash table, and the batch count is the
  configured default, whatever the group-count estimate is.
\<close>

theorem OptimizeHybridHashtableSize_sizing:
  assumes "entrySize \<noteq> 0" and "0 \<le> sint work_mem"
    and "(sint work_mem * 1024) div uint entrySize < 2 ^ 32"
  shows "\<exists>ht'. OptimizeHybridHashtableSize work_mem dflt ht entrySize numGroups = Inr ht'
           \<and> uint (nentries ht') = (sint work_mem * 1024) div uint entrySize
           \<and> set_hybrid ht' = Some ((sint work_mem * 1024) div uint entrySize, sint dflt, True)
           \<and> nbatches ht' = sint dflt
           \<and> hybrid ht'"
proof -
  let ?q = "(sint work_mem * 1024) div uint entrySize"
  have "uint entrySize \<noteq> 0" using assms(1) by (simp add: uint_0_iff)
  then have pos: "0 < uint entrySize" using uint_ge_0 [of entrySize] by linarith
  have q: "c_div (sint work_mem * 1024) (uint entrySize) = ?q"
    using assms(2) pos by (simp add: c_div_def sgn_if)
  have q0: "0 \<le> ?q" using assms(2) pos by (simp add: pos_imp_zdiv_nonneg_iff)
  have "uint (word_of_int ?q :: 32 word) = ?q"
    using q0 assms(3) by (simp add: uint_word_of_int take_bit_int_eq_self)
  then show ?thesis
    using assms q q0 by (simp add: OptimizeHybridHashtableSize_def Let_def)
qed

theorem OptimizeHybridHashtableSize_sizing_witness:
  "\<exists>ht'. OptimizeHybridHashtableSize 4096 32 ex_sizing 400 1000000 = Inr ht'
         \<and> uint (nentries ht') = 10485 \<and> nbatches ht' = 32 \<and> hybrid ht'"
proof -
  have "(400 :: 32 word) \<noteq> 0" "0 \<le> sint (4096 :: 32 word)"
       "(sint (4096 :: 32 word) * 1024) div uint (400 :: 32 word) < 2 ^ 32"
       "(sint (4096 :: 32 word) * 1024) div uint (400 :: 32 word) = 10485"
       "sint (32 :: 32 word) = 32"
    by simp_all
  with OptimizeHybridHashtableSize_sizing [of 400 4096 32 ex_sizing 1000000]
  show ?thesis by auto
qed

section \<open>Properties of the hybrid hash engine\<close>

lemma bindE_Inl_iff:
  "(bindE m f = Inl e) = (m = Inl e \<or> (\<exists>x. m = Inr x \<and> f x = Inl e))"
  by (cases m) (simp_all add: bindE_def)


lemma u32_mod_error: "u32_mod h n \<noteq> Inl not_found_error"
  by (simp add: u32_mod_def not_found_error_def)

lemma append_record_error: "append_record ss i r \<noteq> Inl not_found_error"
  by (simp add: append_record_def not_found_error_def Let_def)

lemma dump_payload_error: "dump_payload agg aggno pg \<noteq> Inl not_found_error"
  by (simp add: dump_payload_def not_found_error_def Let_def split: prod.splits)

lemma dump_payloads_error: "dump_payloads gs aggnos st \<noteq> Inl not_found_error"
proof (induction aggnos arbitrary: st)
  case Nil
  then show ?case by simp
next
  case (Cons a rest)
  obtain agg payload where st: "st = (agg, payload)" by (cases st)
  show ?case unfolding st
    using dump_payload_error Cons.IH
    by (auto simp: bindE_Inl_iff)
qed

lemma dump_record_error: "dump_record e agg \<noteq> Inl not_found_error"
proof (cases "additional e")
  case None
  then show ?thesis by (simp add: dump_record_def not_found_error_def)
next
  case (Some gs)
  then show ?thesis
    using dump_payloads_error [of gs "[0 ..< nat (numtrans agg)]" "(agg, (\<lambda>_. None))"]
    by (auto simp: dump_record_def bindE_Inl_iff)
qed

lemma dump_entry_error: "dump_entry e st \<noteq> Inl not_found_error"
proof -
  obtain agg ht where st: "st = (agg, ht)" by (cases st)
  show ?thesis
  proof (cases "u32_mod (hash e) (nbatches ht)")
    case (Inl err)
    with u32_mod_error [of "hash e" "nbatches ht"] show ?thesis
      by (auto simp: st dump_entry_def bindE_def)
  next
    case (Inr idx)
    show ?thesis
    proof (cases "spill_set ht")
      case None
      with Inr show ?thesis by (simp add: st dump_entry_def bindE_def not_found_error_def)
    next
      case (Some sa)
      show ?thesis
      proof (cases "tablecxt ht sa")
        case None
        with Inr Some show ?thesis by (simp add: st dump_entry_def bindE_def not_found_error_def)
      next
        case ss: (Some ss)
        show ?thesis
        proof (cases "idx \<ge> length (spill_file ss)")
          case True
          with Inr Some ss show ?thesis
            by (simp add: st dump_entry_def bindE_def not_found_error_def)
        next
          case False
          with Inr Some ss show ?thesis
            using dump_record_error [of e agg] append_record_error
            by (auto simp: st dump_entry_def bindE_Inl_iff bindE_def split: sum.splits)
        qed
      qed
    qed
  qed
qed

lemma dump_entries_error: "dump_entries es st \<noteq> Inl not_found_error"
  by (induction es arbitrary: st) (auto simp: bindE_Inl_iff dump_entry_error)

lemma prepare_spill_set_error: "prepare_spill_set ht \<noteq> Inl not_found_error"
  by (simp add: prepare_spill_set_def not_found_error_def Let_def)

lemma DumpHybridHashtable_error: "DumpHybridHashtable agg ht \<noteq> Inl not_found_error"
  unfolding DumpHybridHashtable_def
  using prepare_spill_set_error dump_entries_error
  by (auto simp: bindE_Inl_iff)

lemma dump_entry_frame:
  assumes "dump_entry e (agg, ht) = Inr (agg', ht')"
  shows "\<exists>tc. ht' = ht\<lparr>tablecxt := tc\<rparr>"
proof -
  from assms obtain idx where idx: "u32_mod (hash e) (nbatches ht) = Inr idx"
    by (auto simp: dump_entry_def bindE_Inr_iff)
  from assms idx obtain sa where sa: "spill_set ht = Some sa"
    by (cases "spill_set ht") (auto simp: dump_entry_def bindE_def)
  from assms idx sa obtain ss where ss: "tablecxt ht sa = Some ss"
    by (cases "tablecxt ht sa") (auto simp: dump_entry_def bindE_def)
  from assms idx sa ss have "\<not> idx \<ge> length (spill_file ss)"
    by (auto simp: dump_entry_def bindE_def)
  with assms idx sa ss obtain agg1 r ss' where
    "dump_record e agg = Inr (agg1, r)" "append_record ss idx r = Inr ss'"
    "ht' = ht\<lparr>tablecxt := (tablecxt ht)(sa := Some ss')\<rparr>"
    by (auto simp: dump_entry_def bindE_def split: sum.splits)
  then show ?thesis by blast
qed

lemma dump_entry_set_hybrid:
  "dump_entry e (agg, ht) = Inr (agg', ht') \<Longrightarrow> set_hybrid ht' = set_hybrid ht"
  using dump_entry_frame by fastforce

lemma dump_entries_set_hybrid:
  "dump_entries es (agg, ht) = Inr (agg', ht') \<Longrightarrow> set_hybrid ht' = set_hybrid ht"
proof (induction es arbitrary: agg ht)
  case Nil
  then show ?case by simp
next
  case (Cons e es)
  from Cons.prems obtain agg1 ht1 where
    1: "dump_entry e (agg, ht) = Inr (agg1, ht1)" and 2: "dump_entries es (agg1, ht1) = Inr (agg', ht')"
    by (auto simp: bindE_Inr_iff)
  from Cons.IH [OF 2] dump_entry_set_hybrid [OF 1] show ?case by simp
qed

lemma prepare_spill_set_set_hybrid:
  "prepare_spill_set ht = Inr ht' \<Longrightarrow> set_hybrid ht' = set_hybrid ht"
  by (auto simp: prepare_spill_set_def Let_def split: if_splits)

lemma DumpHybridHashtable_result:
  assumes "DumpHybridHashtable agg ht = Inr (agg', ht')"
  shows "hashtab ht' = [] \<and> set_hybrid ht' = set_hybrid ht"
proof -
  from assms obtain ht1 agg1 ht2 where
    1: "prepare_spill_set ht = Inr ht1" and 2: "dump_entries (hashtab ht1) (agg, ht1) = Inr (agg1, ht2)"
    and 3: "ht' = tuplehash_reset ht2"
    by (auto simp: DumpHybridHashtable_def bindE_Inr_iff)
  from prepare_spill_set_set_hybrid [OF 1] dump_entries_set_hybrid [OF 2] 3
  show ?thesis by (simp add: tuplehash_reset_def)
qed

lemma LookupTupleHashEntry_empty:
  assumes "hashtab ht = []" and "set_hybrid ht = Some (E, B, True)" and "1 \<le> E"
  shows "\<exists>ht3 e. LookupTupleHashEntry ht key = (ht3, Some e, True)"
  using assms
  by (simp add: LookupTupleHashEntry_def tuplehash_insert_with_key_def find_entry_def
        at_capacity_def Let_def)

lemma LookupTupleHashEntry_set_hybrid:
  "LookupTupleHashEntry ht key = (ht', e, n) \<Longrightarrow> set_hybrid ht' = set_hybrid ht \<and> hybrid ht' = hybrid ht"
  by (auto simp: LookupTupleHashEntry_def tuplehash_insert_with_key_def Let_def
           split: option.splits if_splits)

text \<open>
  C4, as stated, fails when the table's capacity is zero: the table is at
  capacity even when empty, so the insert retried after the dump is refused
  again and the error is raised.
\<close>

theorem lookup_hash_entry_retry_fails:
  "lookup_hash_entry (ex_aggstate AGG_HASHED (ex_pertrans ex_sum True 5 False 0))
     (ex_perhash (ex_table 0 []))
   = Inl (Elog ''could not find entry in hybrid-hashtable'')"
  by (simp add: lookup_hash_entry_def lookup_or_dump_def ex_perhash_def ex_table_def ex_aggstate_def ex_slot_def
        hash_key_tuple_def LookupTupleHashEntry_def tuplehash_insert_with_key_def find_entry_def
        at_capacity_def DumpHybridHashtable_def prepare_spill_set_def tuplehash_reset_def
        bindE_def Let_def)

text \<open>
  C4, amended.  In hybrid mode with a capacity of at least one entry,
  \<^verbatim>\<open>lookup_hash_entry\<close> never raises the failed-retry error: whenever the
  first insert is refused and the dump procedure completes, the table is
  empty and the retried insert of the same key succeeds with a new entry.
\<close>

theorem lookup_hash_entry_retry_succeeds:
  assumes "hybrid (hashtable phash)" and "set_hybrid (hashtable phash) = Some (E, B, True)"
    and "1 \<le> E"
  shows "lookup_hash_entry aggstate phash \<noteq> Inl (Elog ''could not find entry in hybrid-hashtable'')
       \<and> (\<forall>ht1 agg2 ht2.
             LookupTupleHashEntry (hashtable phash) (hash_key_tuple phash (tmp_outertuple aggstate))
               = (ht1, None, False)
             \<and> DumpHybridHashtable aggstate ht1 = Inr (agg2, ht2)
             \<longrightarrow> hashtab ht2 = []
                 \<and> (\<exists>ht3 e. LookupTupleHashEntry ht2 (hash_key_tuple phash (tmp_outertuple aggstate))
                              = (ht3, Some e, True)))"
proof -
  let ?key = "hash_key_tuple phash (tmp_outertuple aggstate)"
  obtain ht1 entry1 isnew1 where l1: "LookupTupleHashEntry (hashtable phash) ?key = (ht1, entry1, isnew1)"
    by (metis prod_cases3)
  from LookupTupleHashEntry_set_hybrid [OF l1] assms
  have h1: "set_hybrid ht1 = Some (E, B, True)" "hybrid ht1" by simp_all
  have retry: "hashtab ht2 = [] \<and> (\<exists>ht3 e. LookupTupleHashEntry ht2 ?key = (ht3, Some e, True))"
    if d: "DumpHybridHashtable aggstate ht1 = Inr (agg2, ht2)" for agg2 ht2
  proof -
    from DumpHybridHashtable_result [OF d] h1
    have e: "hashtab ht2 = []" and s: "set_hybrid ht2 = Some (E, B, True)" by simp_all
    from LookupTupleHashEntry_empty [OF e s assms(3)] e show ?thesis by simp
  qed
  have "lookup_or_dump aggstate (hashtable phash) ?key \<noteq> Inl not_found_error"
  proof (cases entry1)
    case (Some e)
    with l1 h1 show ?thesis by (simp add: lookup_or_dump_def)
  next
    case None
    show ?thesis
    proof (cases "DumpHybridHashtable aggstate ht1")
      case (Inl err)
      with DumpHybridHashtable_error [of aggstate ht1] have "err \<noteq> not_found_error" by auto
      with Inl None l1 h1 show ?thesis by (simp add: lookup_or_dump_def bindE_def)
    next
      case (Inr r)
      obtain agg2 ht2 where r: "r = (agg2, ht2)" by (cases r)
      from retry [OF Inr [unfolded r]] obtain ht3 e where
        l3: "LookupTupleHashEntry ht2 ?key = (ht3, Some e, True)" by blast
      with Inr r None l1 h1 show ?thesis by (simp add: lookup_or_dump_def bindE_def)
    qed
  qed
  moreover have "\<And>x. (case x of (agg, ht, e, isnew) \<Rightarrow>
          if isnew then
            (let (agg', pergroup) = initialize_aggregates agg (\<lambda>_. unset_pergroup) (- 1);
                 e' = e\<lparr>additional := Some pergroup\<rparr>
             in Inr (agg', phash\<lparr>hashtable := store_entry e' ht\<rparr>, e'))
          else Inr (agg, phash\<lparr>hashtable := ht\<rparr>, e)) \<noteq> Inl not_found_error"
    by (simp add: Let_def split: prod.splits)
  ultimately have "lookup_hash_entry aggstate phash \<noteq> Inl not_found_error"
    unfolding lookup_hash_entry_def bindE_Inl_iff by blast
  then have first: "lookup_hash_entry aggstate phash \<noteq> Inl (Elog ''could not find entry in hybrid-hashtable'')"
    by (simp add: not_found_error_def)
  have second: "hashtab ht2 = [] \<and> (\<exists>ht3 e. LookupTupleHashEntry ht2 ?key = (ht3, Some e, True))"
    if a: "LookupTupleHashEntry (hashtable phash) ?key = (ht1', None, False)
           \<and> DumpHybridHashtable aggstate ht1' = Inr (agg2, ht2)" for ht1' agg2 ht2
  proof -
    from a l1 have "ht1' = ht1" by simp
    with a have "DumpHybridHashtable aggstate ht1 = Inr (agg2, ht2)" by simp
    then show ?thesis by (rule retry)
  qed
  show ?thesis
  proof (intro conjI allI impI)
    show "lookup_hash_entry aggstate phash \<noteq> Inl (Elog ''could not find entry in hybrid-hashtable'')"
      by (rule first)
  next
    fix ht1' agg2 ht2
    assume "LookupTupleHashEntry (hashtable phash) ?key = (ht1', None, False)
           \<and> DumpHybridHashtable aggstate ht1' = Inr (agg2, ht2)"
    then show "hashtab ht2 = []" using second by blast
  next
    fix ht1' agg2 ht2
    assume "LookupTupleHashEntry (hashtable phash) ?key = (ht1', None, False)
           \<and> DumpHybridHashtable aggstate ht1' = Inr (agg2, ht2)"
    then show "\<exists>ht3 e. LookupTupleHashEntry ht2 ?key = (ht3, Some e, True)" using second by blast
  qed
qed

theorem lookup_hash_entry_retry_succeeds_witness:
  "hybrid (hashtable (ex_perhash (ex_table 1 [ex_entry 6 10])))
   \<and> LookupTupleHashEntry (hashtable (ex_perhash (ex_table 1 [ex_entry 6 10])))
        (hash_key_tuple (ex_perhash (ex_table 1 [ex_entry 6 10]))
           (tmp_outertuple (ex_aggstate AGG_HASHED (ex_pertrans ex_sum True 5 False 0))))
      = (ex_table 1 [ex_entry 6 10], None, False)
   \<and> (\<exists>agg2 ht2. DumpHybridHashtable (ex_aggstate AGG_HASHED (ex_pertrans ex_sum True 5 False 0))
                     (ex_table 1 [ex_entry 6 10]) = Inr (agg2, ht2) \<and> hashtab ht2 = [])
   \<and> lookup_hash_entry (ex_aggstate AGG_HASHED (ex_pertrans ex_sum True 5 False 0))
        (ex_perhash (ex_table 1 [ex_entry 6 10]))
      \<noteq> Inl (Elog ''could not find entry in hybrid-hashtable'')"
proof -
  let ?agg = "ex_aggstate AGG_HASHED (ex_pertrans ex_sum True 5 False 0)"
  let ?ph = "ex_perhash (ex_table 1 [ex_entry 6 10])"
  have h: "hybrid (hashtable ?ph)" "set_hybrid (hashtable ?ph) = Some (1, 4, True)" "(1::int) \<le> 1"
    by (simp_all add: ex_perhash_def ex_table_def)
  have l: "LookupTupleHashEntry (hashtable ?ph) (hash_key_tuple ?ph (tmp_outertuple ?agg))
             = (ex_table 1 [ex_entry 6 10], None, False)"
    by (simp add: ex_perhash_def ex_table_def ex_entry_def ex_aggstate_def ex_slot_def
          hash_key_tuple_def LookupTupleHashEntry_def tuplehash_insert_with_key_def find_entry_def
          at_capacity_def Let_def)
  have "\<exists>r. DumpHybridHashtable ?agg (ex_table 1 [ex_entry 6 10]) = Inr r"
    by (simp add: DumpHybridHashtable_def prepare_spill_set_def dump_entry_def dump_record_def
          dump_payload_def append_record_def u32_mod_def new_spill_file_def
          ex_table_def ex_entry_def ex_aggstate_def ex_pertrans_def bindE_def Let_def)
  then obtain agg2 ht2 where d: "DumpHybridHashtable ?agg (ex_table 1 [ex_entry 6 10]) = Inr (agg2, ht2)"
    by (metis surj_pair)
  note inst = lookup_hash_entry_retry_succeeds [OF h, of ?agg]
  from inst have 1: "lookup_hash_entry ?agg ?ph \<noteq> Inl (Elog ''could not find entry in hybrid-hashtable'')"
    by (rule conjunct1)
  from inst [THEN conjunct2, rule_format, of "ex_table 1 [ex_entry 6 10]" agg2 ht2] l d
  have 2: "hashtab ht2 = []" by simp
  from h(1) l d 1 2 show ?thesis by (intro conjI exI [of _ agg2] exI [of _ ht2]) assumption+
qed

lemma count_read_effect:
  assumes "count_read ht sa fi = Inr ht1"
  shows "\<exists>ss f. tablecxt ht sa = Some ss \<and> fi < length (spill_file ss) \<and> spill_file ss ! fi = Some f \<and>
           ht1 = ht\<lparr>tablecxt := (tablecxt ht)
                     (sa := Some (ss\<lparr>spill_file := (spill_file ss)
                              [fi := Some (f\<lparr>ntups_read := ntups_read f + 1\<rparr>)]\<rparr>))\<rparr>"
  using assms
  by (auto simp: count_read_def split: option.splits if_splits)

lemma count_read_inv:
  assumes "count_read ht sa fi = Inr ht1" and "reload_inv sa fi B L ht"
  shows "reload_inv sa fi B L ht1 \<and> hashtab ht1 = hashtab ht \<and> set_hybrid ht1 = set_hybrid ht
         \<and> (\<forall>i. routed ht1 sa fi i = routed ht sa fi i) \<and> child_of ht1 sa fi = child_of ht sa fi"
proof -
  from count_read_effect [OF assms(1)] obtain ss f where
    ss: "tablecxt ht sa = Some ss" and fi: "fi < length (spill_file ss)" and f: "spill_file ss ! fi = Some f"
    and ht1: "ht1 = ht\<lparr>tablecxt := (tablecxt ht)
                     (sa := Some (ss\<lparr>spill_file := (spill_file ss)
                              [fi := Some (f\<lparr>ntups_read := ntups_read f + 1\<rparr>)]\<rparr>))\<rparr>"
    by blast
  have inv: "reload_inv sa fi B L ht1"
    using assms(2) ss fi f unfolding reload_inv_def ht1 by auto
  have rt: "\<forall>i. routed ht1 sa fi i = routed ht sa fi i"
    using assms(2) ss fi f unfolding reload_inv_def ht1
    by (auto simp: routed_def child_of_def batch_records_def)
  have co: "child_of ht1 sa fi = child_of ht sa fi"
    using ss fi f unfolding ht1 by (simp add: child_of_def)
  from inv rt co show ?thesis by (simp add: ht1)
qed


lemma u32_mod_pos:
  assumes "0 < n" and "n < 2 ^ 32"
  shows "u32_mod h n = Inr (nat (uint h mod n)) \<and> nat (uint h mod n) < nat n"
proof -
  have "n mod 2 ^ 32 = n" using assms by simp
  moreover have "uint h mod n < n" "0 \<le> uint h mod n" using assms by simp_all
  ultimately show ?thesis using assms by (simp add: u32_mod_def)
qed

lemma append_record_effect:
  assumes "i < length (spill_file ss)"
  shows "\<exists>ss'. append_record ss i r = Inr ss' \<and> num_files ss' = num_files ss \<and> level ss' = level ss
           \<and> parent_spill_set ss' = parent_spill_set ss \<and> length (spill_file ss') = length (spill_file ss)
           \<and> (\<forall>j < length (spill_file ss).
                  (case spill_file ss' ! j of None \<Rightarrow> [] | Some f \<Rightarrow> buffile f)
                = (case spill_file ss ! j of None \<Rightarrow> [] | Some f \<Rightarrow> buffile f) @ (if j = i then [r] else []))"
  using assms
  by (auto simp: append_record_def new_spill_file_def Let_def nth_list_update split: option.splits)

lemma spill_to_child_inv:
  assumes inv: "reload_inv sa fi B L ht" and B: "0 \<le> B" "B < 2 ^ 31 - 1" and L: "L < 2 ^ 31 - 1"
  shows "\<exists>ht2. spill_to_child ht sa fi r = Inr ht2
         \<and> reload_inv sa fi B L ht2 \<and> hashtab ht2 = hashtab ht \<and> set_hybrid ht2 = set_hybrid ht
         \<and> child_of ht2 sa fi \<noteq> None
         \<and> (\<forall>i. routed ht2 sa fi i
               = routed ht sa fi i @ (if i = nat (uint (rec_hash r) mod (B + 1)) then [r] else []))
         \<and> map_option ntups_read (batch_file ht2 sa fi) = map_option ntups_read (batch_file ht sa fi)
         \<and> map_option ntups_write (batch_file ht2 sa fi) = map_option ntups_write (batch_file ht sa fi)"
proof -
  from inv obtain ss f where
    used: "sa < tablecxt_used ht" and fresh: "\<forall>a \<ge> tablecxt_used ht. tablecxt ht a = None"
    and ss: "tablecxt ht sa = Some ss" and nf: "num_files ss = B" and lv: "level ss = L"
    and fi: "fi < length (spill_file ss)" and f: "spill_file ss ! fi = Some f"
    and ch: "file_spilled f \<longrightarrow>
             (\<exists>ca child. child_spill_set f = Some ca \<and> ca \<noteq> sa \<and> ca < tablecxt_used ht \<and>
                 tablecxt ht ca = Some child \<and> num_files child = B + 1 \<and> level child = L + 1 \<and>
                 parent_spill_set child = Some sa \<and> length (spill_file child) = nat (B + 1))"
    unfolding reload_inv_def by blast
  let ?idx = "nat (uint (rec_hash r) mod (B + 1))"
  have um: "u32_mod (rec_hash r) (B + 1) = Inr ?idx" and idx: "?idx < nat (B + 1)"
    using u32_mod_pos [of "B + 1" "rec_hash r"] B by simp_all
  show ?thesis
  proof (cases "file_spilled f")
    case False
    let ?ca = "tablecxt_used ht"
    let ?child = "\<lparr>level = L + 1, num_files = B + 1, parent_index = current_file ss,
                    parent_spill_set = Some sa, current_file = 0,
                    spill_file = replicate (nat (B + 1)) None\<rparr> :: 'a SpillSet"
    let ?ss1 = "ss\<lparr>spill_file := (spill_file ss)[fi := Some (f\<lparr>file_spilled := True, child_spill_set := Some ?ca\<rparr>)]\<rparr>"
    have ne: "?ca \<noteq> sa" using used by simp
    from append_record_effect [of ?idx ?child r] idx obtain child' where
      ap: "append_record ?child ?idx r = Inr child'" and
      c1: "num_files child' = B + 1" "level child' = L + 1" "parent_spill_set child' = Some sa"
          "length (spill_file child') = nat (B + 1)" and
      c2: "\<forall>j < nat (B + 1). (case spill_file child' ! j of None \<Rightarrow> [] | Some f \<Rightarrow> buffile f)
                = (if j = ?idx then [r] else [])"
      by auto
    define ht2 where "ht2 = ht\<lparr>tablecxt := (tablecxt ht)(sa := Some ?ss1, ?ca := Some child'),
                        tablecxt_used := Suc ?ca\<rparr>"
    have run: "spill_to_child ht sa fi r = Inr ht2"
      using False ss fi f nf lv ne um ap B L
      by (simp add: spill_to_child_def bindE_def Let_def ht2_def)
    note ht2 = ht2_def
    have r0: "\<forall>i. routed ht sa fi i = []"
      using False ss fi f by (simp add: routed_def child_of_def)
    have "reload_inv sa fi B L ht2"
      unfolding reload_inv_def ht2 using used fresh ss nf lv fi f ne c1
      by auto
    moreover have "child_of ht2 sa fi = Some ?ca"
      unfolding ht2 using ne fi by (simp add: child_of_def)
    moreover have "\<forall>i. routed ht2 sa fi i = (if i = ?idx then [r] else [])"
      unfolding ht2 using ne fi c1 c2 idx
      by (auto simp: routed_def child_of_def batch_records_def)
    moreover have "map_option ntups_read (batch_file ht2 sa fi) = map_option ntups_read (batch_file ht sa fi)"
        "map_option ntups_write (batch_file ht2 sa fi) = map_option ntups_write (batch_file ht sa fi)"
      unfolding ht2 using ne ss fi f by (simp_all add: batch_file_def)
    ultimately show ?thesis using r0 run by (intro exI [of _ ht2]) (simp add: ht2)
  next
    case True
    with ch obtain ca child where
      cs: "child_spill_set f = Some ca" and ne: "ca \<noteq> sa" and cu: "ca < tablecxt_used ht"
      and tc: "tablecxt ht ca = Some child" and cn: "num_files child = B + 1" and cl: "level child = L + 1"
      and cp: "parent_spill_set child = Some sa" and clen: "length (spill_file child) = nat (B + 1)"
      by blast
    from append_record_effect [of ?idx child r] idx clen obtain child' where
      ap: "append_record child ?idx r = Inr child'" and
      c1: "num_files child' = num_files child" "level child' = level child"
          "parent_spill_set child' = parent_spill_set child"
          "length (spill_file child') = length (spill_file child)" and
      c2: "\<forall>j < length (spill_file child). (case spill_file child' ! j of None \<Rightarrow> [] | Some f \<Rightarrow> buffile f)
                = (case spill_file child ! j of None \<Rightarrow> [] | Some f \<Rightarrow> buffile f) @ (if j = ?idx then [r] else [])"
      by auto
    define ht2 where "ht2 = ht\<lparr>tablecxt := (tablecxt ht)(ca := Some child')\<rparr>"
    have run: "spill_to_child ht sa fi r = Inr ht2"
      using True ss fi f cs tc cn um ap
      by (simp add: spill_to_child_def bindE_def Let_def ht2_def)
    note ht2 = ht2_def
    have "reload_inv sa fi B L ht2"
      unfolding reload_inv_def ht2 using used fresh ss nf lv fi f ne cu True cs tc cn cl cp clen c1
      by auto
    moreover have "child_of ht2 sa fi = Some ca"
      unfolding ht2 using ne ss fi f True cs by (simp add: child_of_def)
    moreover have "child_of ht sa fi = Some ca"
      using ss fi f True cs by (simp add: child_of_def)
    moreover have "\<forall>i. batch_records ht2 ca i
          = batch_records ht ca i @ (if i = ?idx then [r] else [])"
      unfolding ht2 using tc c1 c2 idx clen
      by (auto simp: batch_records_def)
    moreover have "map_option ntups_read (batch_file ht2 sa fi) = map_option ntups_read (batch_file ht sa fi)"
        "map_option ntups_write (batch_file ht2 sa fi) = map_option ntups_write (batch_file ht sa fi)"
      unfolding ht2 using ne ss fi f by (simp_all add: batch_file_def)
    ultimately show ?thesis using run by (intro exI [of _ ht2]) (simp add: routed_def ht2)
  qed
qed


lemma at_capacity_iff: "at_capacity ht = table_full (hybrid_capacity ht) (table_keys ht)"
  by (auto simp: at_capacity_def table_full_def hybrid_capacity_def table_keys_def
           split: option.splits prod.splits bool.splits)

lemma find_entry_None_iff: "(find_entry ht key = None) = (key \<notin> set (table_keys ht))"
  by (auto simp: find_entry_def table_keys_def find_None_iff)

lemma store_entry_frame:
  "table_keys (store_entry e ht) = table_keys ht \<and> tablecxt (store_entry e ht) = tablecxt ht
   \<and> tablecxt_used (store_entry e ht) = tablecxt_used ht \<and> set_hybrid (store_entry e ht) = set_hybrid ht"
  by (simp add: store_entry_def table_keys_def comp_def cong: map_cong)

lemma same_cxt:
  assumes "tablecxt ht' = tablecxt ht" and "tablecxt_used ht' = tablecxt_used ht"
  shows "reload_inv sa fi B L ht' = reload_inv sa fi B L ht" and "routed ht' sa fi i = routed ht sa fi i"
    and "child_of ht' sa fi = child_of ht sa fi"
proof -
  have b: "batch_records ht' = batch_records ht"
    using assms by (simp add: fun_eq_iff batch_records_def)
  show "child_of ht' sa fi = child_of ht sa fi" using assms by (simp add: child_of_def)
  then show "routed ht' sa fi i = routed ht sa fi i" using b by (simp add: routed_def split: option.splits)
  show "reload_inv sa fi B L ht' = reload_inv sa fi B L ht" using assms by (simp add: reload_inv_def)
qed

lemma insert_effect:
  assumes "tuplehash_insert_with_key ht key h = (ht1, entry, found)"
  shows "tablecxt ht1 = tablecxt ht \<and> tablecxt_used ht1 = tablecxt_used ht \<and> set_hybrid ht1 = set_hybrid ht
       \<and> (if key \<in> set (table_keys ht) then found \<and> entry \<noteq> None \<and> table_keys ht1 = table_keys ht
           else \<not> found \<and>
             (if table_full (hybrid_capacity ht) (table_keys ht) then entry = None \<and> ht1 = ht
              else (\<exists>e. entry = Some e \<and> firstTuple e = key) \<and> table_keys ht1 = table_keys ht @ [key]))"
proof (cases "find_entry ht key")
  case None
  then have "key \<notin> set (table_keys ht)" by (simp add: find_entry_None_iff)
  with assms None show ?thesis
    by (auto simp: tuplehash_insert_with_key_def at_capacity_iff Let_def table_keys_def split: if_splits)
next
  case (Some e)
  then have "key \<in> set (table_keys ht)" using find_entry_None_iff [of ht key] by auto
  moreover from assms have "ht1 = ht \<and> entry = Some e \<and> found"
    unfolding tuplehash_insert_with_key_def Some by simp
  ultimately show ?thesis by simp
qed

lemma restorable_types:
  "trans_types pt' = trans_types pt \<Longrightarrow> restorable pt' pg b = restorable pt pg b"
  by (simp add: trans_types_def restorable_def)

lemma restore_state_ok:
  assumes "restorable (pertrans agg aggno) pg bytes"
  shows "\<exists>agg1 pg1. restore_state agg aggno pg bytes = Inr (agg1, pg1) \<and> numtrans agg1 = numtrans agg
           \<and> (\<forall>a. trans_types (pertrans agg1 a) = trans_types (pertrans agg a))"
  using assms
  by (auto simp: restore_state_def restorable_def trans_types_def Let_def
           split: option.splits prod.splits if_splits)

lemma combine_transition_types:
  "combine_transition pt pg = (pt', pg', calls) \<Longrightarrow> trans_types pt' = trans_types pt"
  by (auto simp: combine_transition_def Let_def trans_types_def split: if_splits prod.splits)

lemma merge_states_ok:
  assumes "\<forall>a \<in> set aggnos. restorable (pertrans agg a) (rec_pergroup r a) (rec_payload r a)"
  shows "\<exists>agg1 pg1. merge_states r aggnos (agg, pergroup) = Inr (agg1, pg1) \<and> numtrans agg1 = numtrans agg
           \<and> (\<forall>a. trans_types (pertrans agg1 a) = trans_types (pertrans agg a))"
  using assms
proof (induction aggnos arbitrary: agg pergroup)
  case Nil
  then show ?case by simp
next
  case (Cons aggno rest)
  from Cons.prems have "restorable (pertrans agg aggno) (rec_pergroup r aggno) (rec_payload r aggno)"
    by simp
  from restore_state_ok [OF this] obtain agg1 mpg where
    rs: "restore_state agg aggno (rec_pergroup r aggno) (rec_payload r aggno) = Inr (agg1, mpg)"
    and n1: "numtrans agg1 = numtrans agg"
    and t1: "\<forall>a. trans_types (pertrans agg1 a) = trans_types (pertrans agg a)"
    by blast
  let ?pt = "pertrans agg1 aggno"
  let ?pt1 = "?pt\<lparr>combfn_fcinfo := (combfn_fcinfo ?pt)
                 \<lparr>arg := (arg (combfn_fcinfo ?pt))(1 := transValue mpg),
                  argnull := (argnull (combfn_fcinfo ?pt))(1 := transValueIsNull mpg)\<rparr>\<rparr>"
  obtain pt2 pg2 calls where ct: "combine_transition ?pt1 (pergroup aggno) = (pt2, pg2, calls)"
    by (metis prod_cases3)
  let ?agg2 = "agg1\<lparr>pertrans := (pertrans agg1)(aggno := pt2), invoked := invoked agg1 @ calls\<rparr>"
  have tp: "trans_types pt2 = trans_types ?pt"
    using combine_transition_types [OF ct] by (simp add: trans_types_def)
  have t2: "\<forall>a. trans_types (pertrans ?agg2 a) = trans_types (pertrans agg a)"
    using t1 tp by simp
  have "\<forall>a \<in> set rest. restorable (pertrans ?agg2 a) (rec_pergroup r a) (rec_payload r a)"
    using Cons.prems t2 restorable_types by (metis list.set_intros(2))
  from Cons.IH [OF this, of "pergroup(aggno := pg2)"] obtain agg3 pg3 where
    ih: "merge_states r rest (?agg2, pergroup(aggno := pg2)) = Inr (agg3, pg3)"
    and n3: "numtrans agg3 = numtrans ?agg2"
    and t3: "\<forall>a. trans_types (pertrans agg3 a) = trans_types (pertrans ?agg2 a)"
    by blast
  have "merge_states r (aggno # rest) (agg, pergroup) = Inr (agg3, pg3)"
    using rs ct ih by (simp add: bindE_def Let_def)
  moreover have "numtrans agg3 = numtrans agg" using n3 n1 by simp
  moreover have "\<forall>a. trans_types (pertrans agg3 a) = trans_types (pertrans agg a)"
    using t3 t2 by simp
  ultimately show ?case by blast
qed

lemma adopt_states_ok:
  assumes "\<forall>a \<in> set aggnos. restorable (pertrans agg a) (gs a) (rec_payload r a)"
    and "distinct aggnos"
  shows "\<exists>agg1 gs1. adopt_states r aggnos (agg, gs) = Inr (agg1, gs1) \<and> numtrans agg1 = numtrans agg
           \<and> (\<forall>a. trans_types (pertrans agg1 a) = trans_types (pertrans agg a))"
  using assms
proof (induction aggnos arbitrary: agg gs)
  case Nil
  then show ?case by simp
next
  case (Cons aggno rest)
  from Cons.prems have "restorable (pertrans agg aggno) (gs aggno) (rec_payload r aggno)"
    by simp
  from restore_state_ok [OF this] obtain agg1 pg where
    rs: "restore_state agg aggno (gs aggno) (rec_payload r aggno) = Inr (agg1, pg)"
    and n1: "numtrans agg1 = numtrans agg"
    and t1: "\<forall>a. trans_types (pertrans agg1 a) = trans_types (pertrans agg a)"
    by blast
  have "\<forall>a \<in> set rest. restorable (pertrans agg1 a) ((gs(aggno := pg)) a) (rec_payload r a)"
  proof
    fix a assume a: "a \<in> set rest"
    with Cons.prems(2) have "a \<noteq> aggno" by auto
    moreover from a Cons.prems(1) have "restorable (pertrans agg a) (gs a) (rec_payload r a)" by simp
    ultimately show "restorable (pertrans agg1 a) ((gs(aggno := pg)) a) (rec_payload r a)"
      using t1 restorable_types [of "pertrans agg1 a" "pertrans agg a"] by simp
  qed
  moreover have "distinct rest" using Cons.prems(2) by simp
  ultimately obtain agg3 gs3 where
    ih: "adopt_states r rest (agg1, gs(aggno := pg)) = Inr (agg3, gs3)"
    and n3: "numtrans agg3 = numtrans agg1"
    and t3: "\<forall>a. trans_types (pertrans agg3 a) = trans_types (pertrans agg1 a)"
    using Cons.IH [of agg1 "gs(aggno := pg)"] by blast
  have "adopt_states r (aggno # rest) (agg, gs) = Inr (agg3, gs3)"
    using rs ih by (simp add: bindE_def)
  moreover have "numtrans agg3 = numtrans agg" using n3 n1 by simp
  moreover have "\<forall>a. trans_types (pertrans agg3 a) = trans_types (pertrans agg a)"
    using t3 t1 by simp
  ultimately show ?case by blast
qed

lemma count_read_ok:
  assumes "reload_inv sa fi B L ht"
  shows "\<exists>ht1 f. count_read ht sa fi = Inr ht1 \<and> batch_file ht sa fi = Some f
           \<and> batch_file ht1 sa fi = Some (f\<lparr>ntups_read := ntups_read f + 1\<rparr>)"
  using assms
  by (auto simp: reload_inv_def count_read_def batch_file_def)

lemma insert_found:
  assumes "tuplehash_insert_with_key ht key h = (ht1, entry, found)"
  shows "(found \<longrightarrow> ht1 = ht \<and> (\<exists>e \<in> set (hashtab ht). entry = Some e))
       \<and> (\<not> found \<and> entry \<noteq> None \<longrightarrow>
            (\<exists>e. entry = Some e \<and> firstTuple e = key \<and> hashtab ht1 = hashtab ht @ [e]))
       \<and> (entry = None \<longrightarrow> ht1 = ht)"
proof (cases "find_entry ht key")
  case None
  with assms show ?thesis
    by (auto simp: tuplehash_insert_with_key_def Let_def split: if_splits)
next
  case (Some e)
  then have "e \<in> set (hashtab ht)"
    by (auto simp: find_entry_def find_Some_iff)
  moreover from assms have "ht1 = ht \<and> entry = Some e \<and> found"
    unfolding tuplehash_insert_with_key_def Some by simp
  ultimately show ?thesis by simp
qed

lemma batch_file_same: "tablecxt ht' = tablecxt ht \<Longrightarrow> batch_file ht' a i = batch_file ht a i"
  by (simp add: batch_file_def)

lemma reload_ready_store:
  assumes "reload_ready sa fi nr nw agg0 agg ht0" and "tablecxt ht1 = tablecxt ht0"
    and "numtrans agg1 = numtrans agg0"
    and "\<forall>a. trans_types (pertrans agg1 a) = trans_types (pertrans agg0 a)"
    and "0 < numtrans agg0 \<longrightarrow> additional e' \<noteq> None \<and>
           (\<forall>x \<in> set (hashtab ht1). firstTuple x \<noteq> firstTuple e' \<longrightarrow> additional x \<noteq> None)"
  shows "reload_ready sa fi nr nw agg0 agg1 (store_entry e' ht1)"
  using assms by (auto simp: reload_ready_def store_entry_def batch_file_def)

lemma reload_ready_keep:
  assumes "reload_ready sa fi nr nw agg0 agg ht0"
    and "map_option ntups_read (batch_file ht1 sa fi) = map_option ntups_read (batch_file ht0 sa fi)"
    and "map_option ntups_write (batch_file ht1 sa fi) = map_option ntups_write (batch_file ht0 sa fi)"
    and "hashtab ht1 = hashtab ht0"
  shows "reload_ready sa fi nr nw agg0 agg ht1"
  using assms by (auto simp: reload_ready_def)

lemma load_record_step:
  assumes inv: "reload_inv sa fi B L ht" and B: "0 \<le> B" "B < 2 ^ 31 - 1" and L: "L < 2 ^ 31 - 1"
    and rdy: "reload_ready sa fi nr nw agg0 agg ht"
    and rst: "\<forall>a < nat (numtrans agg0). restorable (pertrans agg0 a) (rec_pergroup r a) (rec_payload r a)"
  shows "\<exists>agg' ht'. load_record sa fi r (agg, ht) = Inr (agg', ht')
         \<and> reload_inv sa fi B L ht' \<and> reload_ready sa fi (nr + 1) nw agg0 agg' ht'
         \<and> hybrid_capacity ht' = hybrid_capacity ht \<and>
         (if rec_tuple r \<in> set (table_keys ht)
          then table_keys ht' = table_keys ht \<and> (\<forall>i. routed ht' sa fi i = routed ht sa fi i)
          else if table_full (hybrid_capacity ht) (table_keys ht)
          then table_keys ht' = table_keys ht \<and> child_of ht' sa fi \<noteq> None \<and>
               (\<forall>i. routed ht' sa fi i
                  = routed ht sa fi i @ (if i = nat (uint (rec_hash r) mod (B + 1)) then [r] else []))
          else table_keys ht' = table_keys ht @ [rec_tuple r] \<and> (\<forall>i. routed ht' sa fi i = routed ht sa fi i))
         \<and> (child_of ht sa fi \<noteq> None \<longrightarrow> child_of ht' sa fi \<noteq> None)"
proof -
  from count_read_ok [OF inv] obtain ht0 f where cr: "count_read ht sa fi = Inr ht0"
    and bf: "batch_file ht sa fi = Some f"
    and bf0: "batch_file ht0 sa fi = Some (f\<lparr>ntups_read := ntups_read f + 1\<rparr>)"
    by blast
  from count_read_inv [OF cr inv] have ch0: "child_of ht0 sa fi = child_of ht sa fi"
    and h0: "hashtab ht0 = hashtab ht" by simp_all
  from count_read_inv [OF cr inv] have
    inv0: "reload_inv sa fi B L ht0" and k0: "table_keys ht0 = table_keys ht"
    and c0: "hybrid_capacity ht0 = hybrid_capacity ht" and r0: "\<forall>i. routed ht0 sa fi i = routed ht sa fi i"
    by (simp_all add: table_keys_def hybrid_capacity_def)
  have rdy0: "reload_ready sa fi (nr + 1) nw agg0 agg ht0"
    using rdy bf bf0 h0 by (auto simp: reload_ready_def)
  have nt: "numtrans agg = numtrans agg0"
    and ty: "\<forall>a. trans_types (pertrans agg a) = trans_types (pertrans agg0 a)"
    and en: "0 < numtrans agg0 \<longrightarrow> (\<forall>e \<in> set (hashtab ht0). additional e \<noteq> None)"
    using rdy0 by (simp_all add: reload_ready_def)
  have rst': "\<forall>a \<in> set [0 ..< nat (numtrans agg)].
                restorable (pertrans agg a) (rec_pergroup r a) (rec_payload r a)"
  proof
    fix a assume "a \<in> set [0 ..< nat (numtrans agg)]"
    then have "a < nat (numtrans agg0)" using nt by simp
    with rst have "restorable (pertrans agg0 a) (rec_pergroup r a) (rec_payload r a)" by simp
    with ty restorable_types [of "pertrans agg a" "pertrans agg0 a"]
    show "restorable (pertrans agg a) (rec_pergroup r a) (rec_payload r a)" by simp
  qed
  obtain ht1 entry found where ins: "tuplehash_insert_with_key ht0 (rec_tuple r) (rec_hash r) = (ht1, entry, found)"
    by (metis prod_cases3)
  note ie = insert_effect [OF ins]
  note ifd = insert_found [OF ins]
  from ie have fr1: "tablecxt ht1 = tablecxt ht0" "tablecxt_used ht1 = tablecxt_used ht0"
    and sh1: "set_hybrid ht1 = set_hybrid ht0" by simp_all
  have c1: "hybrid_capacity ht1 = hybrid_capacity ht" using sh1 c0 by (simp add: hybrid_capacity_def)
  have inv1: "reload_inv sa fi B L ht1" using same_cxt(1) [OF fr1] inv0 by simp
  have r1: "\<forall>i. routed ht1 sa fi i = routed ht sa fi i" using same_cxt(2) [OF fr1] r0 by simp
  have ch1: "child_of ht1 sa fi = child_of ht sa fi" using same_cxt(3) [OF fr1] ch0 by simp
  have store: "reload_inv sa fi B L (store_entry e ht1) \<and> hybrid_capacity (store_entry e ht1) = hybrid_capacity ht
        \<and> table_keys (store_entry e ht1) = table_keys ht1
        \<and> (\<forall>i. routed (store_entry e ht1) sa fi i = routed ht sa fi i)
        \<and> child_of (store_entry e ht1) sa fi = child_of ht sa fi" for e
    using store_entry_frame [of e ht1] same_cxt [of "store_entry e ht1" ht1] inv1 r1 c1 ch1
    by (simp add: hybrid_capacity_def)
  show ?thesis
  proof (cases "rec_tuple r \<in> set (table_keys ht)")
    case True
    with ie k0 have fnd: "found" and k1: "table_keys ht1 = table_keys ht" by auto
    with ifd obtain e where e: "entry = Some e" "e \<in> set (hashtab ht0)" "ht1 = ht0" by auto
    show ?thesis
    proof (cases "0 < numtrans agg")
      case pos: True
      with en nt e obtain pergroup where pg: "additional e = Some pergroup" by auto
      from merge_states_ok [OF rst', of pergroup] obtain agg1 pg1 where
        ms: "merge_states r [0 ..< nat (numtrans agg)] (agg, pergroup) = Inr (agg1, pg1)"
        and n1: "numtrans agg1 = numtrans agg"
        and t1: "\<forall>a. trans_types (pertrans agg1 a) = trans_types (pertrans agg a)"
        by blast
      let ?e = "e\<lparr>additional := Some pg1\<rparr>"
      have run: "load_record sa fi r (agg, ht) = Inr (agg1, store_entry ?e ht1)"
        using cr ins fnd e pos pg ms by (simp add: load_record_def bindE_def)
      have "reload_ready sa fi (nr + 1) nw agg0 agg1 (store_entry ?e ht1)"
      proof (rule reload_ready_store [OF rdy0 fr1(1)])
        show "numtrans agg1 = numtrans agg0" using n1 nt by simp
        show "\<forall>a. trans_types (pertrans agg1 a) = trans_types (pertrans agg0 a)" using t1 ty by simp
        show "0 < numtrans agg0 \<longrightarrow> additional ?e \<noteq> None \<and>
           (\<forall>x \<in> set (hashtab ht1). firstTuple x \<noteq> firstTuple ?e \<longrightarrow> additional x \<noteq> None)"
          using en e(3) by simp
      qed
      with run True k1 store [of ?e] show ?thesis by auto
    next
      case npos: False
      have run: "load_record sa fi r (agg, ht) = Inr (agg, ht1)"
        using cr ins fnd e npos by (simp add: load_record_def bindE_def)
      have "reload_ready sa fi (nr + 1) nw agg0 agg ht1" using rdy0 e(3) by simp
      with run True k1 inv1 c1 r1 ch1 show ?thesis by auto
    qed
  next
    case False
    show ?thesis
    proof (cases "table_full (hybrid_capacity ht) (table_keys ht)")
      case full: True
      with False ie k0 c0 have e: "\<not> found" "entry = None" "ht1 = ht0" by auto
      from spill_to_child_inv [OF inv0 B L, of r] obtain ht2 where
        sp: "spill_to_child ht0 sa fi r = Inr ht2" and
        i2: "reload_inv sa fi B L ht2" "hashtab ht2 = hashtab ht0" "set_hybrid ht2 = set_hybrid ht0"
            "child_of ht2 sa fi \<noteq> None"
            "\<forall>i. routed ht2 sa fi i
               = routed ht0 sa fi i @ (if i = nat (uint (rec_hash r) mod (B + 1)) then [r] else [])"
        and cnt: "map_option ntups_read (batch_file ht2 sa fi) = map_option ntups_read (batch_file ht0 sa fi)"
                 "map_option ntups_write (batch_file ht2 sa fi) = map_option ntups_write (batch_file ht0 sa fi)"
        by blast
      have run: "load_record sa fi r (agg, ht) = Inr (agg, ht2)"
        using cr ins e sp by (simp add: load_record_def bindE_def)
      have "reload_ready sa fi (nr + 1) nw agg0 agg ht2"
        using reload_ready_keep [OF rdy0 cnt i2(2)] .
      with run i2 k0 c0 r0 False full show ?thesis
        by (auto simp: table_keys_def hybrid_capacity_def)
    next
      case nfull: False
      with False ie k0 c0 have nf: "\<not> found" and k1: "table_keys ht1 = table_keys ht @ [rec_tuple r]"
        and ex: "entry \<noteq> None" by auto
      with ifd obtain e where e: "entry = Some e" "firstTuple e = rec_tuple r"
        "hashtab ht1 = hashtab ht0 @ [e]" by auto
      have others: "0 < numtrans agg0 \<longrightarrow>
           (\<forall>x \<in> set (hashtab ht1). firstTuple x \<noteq> rec_tuple r \<longrightarrow> additional x \<noteq> None)"
        using en e by auto
      show ?thesis
      proof (cases "0 < numtrans agg")
        case pos: True
        have "distinct [0 ..< nat (numtrans agg)]" by simp
        from adopt_states_ok [OF rst' this] obtain agg1 gs1 where
          ad: "adopt_states r [0 ..< nat (numtrans agg)] (agg, rec_pergroup r) = Inr (agg1, gs1)"
          and n1: "numtrans agg1 = numtrans agg"
          and t1: "\<forall>a. trans_types (pertrans agg1 a) = trans_types (pertrans agg a)"
          by blast
        let ?e = "e\<lparr>firstTuple := rec_tuple r, additional := Some gs1\<rparr>"
        have run: "load_record sa fi r (agg, ht) = Inr (agg1, store_entry ?e ht1)"
          using cr ins nf e pos ad by (simp add: load_record_def bindE_def)
        have "reload_ready sa fi (nr + 1) nw agg0 agg1 (store_entry ?e ht1)"
        proof (rule reload_ready_store [OF rdy0 fr1(1)])
          show "numtrans agg1 = numtrans agg0" using n1 nt by simp
          show "\<forall>a. trans_types (pertrans agg1 a) = trans_types (pertrans agg0 a)" using t1 ty by simp
          show "0 < numtrans agg0 \<longrightarrow> additional ?e \<noteq> None \<and>
             (\<forall>x \<in> set (hashtab ht1). firstTuple x \<noteq> firstTuple ?e \<longrightarrow> additional x \<noteq> None)"
            using others by simp
        qed
        with run False nfull k1 store [of ?e] show ?thesis by auto
      next
        case npos: False
        let ?e = "e\<lparr>firstTuple := rec_tuple r\<rparr>"
        have run: "load_record sa fi r (agg, ht) = Inr (agg, store_entry ?e ht1)"
          using cr ins nf e npos by (simp add: load_record_def bindE_def)
        have "reload_ready sa fi (nr + 1) nw agg0 agg (store_entry ?e ht1)"
        proof (rule reload_ready_store [OF rdy0 fr1(1)])
          show "numtrans agg = numtrans agg0" using nt .
          show "\<forall>a. trans_types (pertrans agg a) = trans_types (pertrans agg0 a)" using ty .
          show "0 < numtrans agg0 \<longrightarrow> additional ?e \<noteq> None \<and>
             (\<forall>x \<in> set (hashtab ht1). firstTuple x \<noteq> firstTuple ?e \<longrightarrow> additional x \<noteq> None)"
            using npos nt by simp
        qed
        with run False nfull k1 store [of ?e] show ?thesis by auto
      qed
    qed
  qed
qed

lemma load_records_routing:
  assumes "reload_inv sa fi B L ht" and "0 \<le> B" "B < 2 ^ 31 - 1" and "L < 2 ^ 31 - 1"
    and "reload_ready sa fi nr nw agg0 agg ht"
    and "\<forall>r \<in> set recs. \<forall>a < nat (numtrans agg0).
           restorable (pertrans agg0 a) (rec_pergroup r a) (rec_payload r a)"
  shows "\<exists>agg' ht'. load_records sa fi recs (agg, ht) = Inr (agg', ht') \<and>
         reload_inv sa fi B L ht' \<and>
         reload_ready sa fi (nr + of_nat (length recs)) nw agg0 agg' ht' \<and>
         (\<forall>i. routed ht' sa fi i = routed ht sa fi i @
                 filter (\<lambda>r. nat (uint (rec_hash r) mod (B + 1)) = i)
                   (refused_records (hybrid_capacity ht) (table_keys ht) recs)) \<and>
         (refused_records (hybrid_capacity ht) (table_keys ht) recs \<noteq> [] \<longrightarrow> child_of ht' sa fi \<noteq> None)
         \<and> (child_of ht sa fi \<noteq> None \<longrightarrow> child_of ht' sa fi \<noteq> None)"
  using assms
proof (induction recs arbitrary: agg ht nr)
  case Nil
  then show ?case by simp
next
  case (Cons r rs)
  have rst: "\<forall>a < nat (numtrans agg0). restorable (pertrans agg0 a) (rec_pergroup r a) (rec_payload r a)"
    using Cons.prems(6) by simp
  have rst': "\<forall>r \<in> set rs. \<forall>a < nat (numtrans agg0).
           restorable (pertrans agg0 a) (rec_pergroup r a) (rec_payload r a)"
    using Cons.prems(6) by simp
  from load_record_step [OF Cons.prems(1-5) rst] obtain agg1 ht1 where
    1: "load_record sa fi r (agg, ht) = Inr (agg1, ht1)" and
    inv1: "reload_inv sa fi B L ht1" and rdy1: "reload_ready sa fi (nr + 1) nw agg0 agg1 ht1" and
    c1: "hybrid_capacity ht1 = hybrid_capacity ht" and
    st: "(if rec_tuple r \<in> set (table_keys ht)
          then table_keys ht1 = table_keys ht \<and> (\<forall>i. routed ht1 sa fi i = routed ht sa fi i)
          else if table_full (hybrid_capacity ht) (table_keys ht)
          then table_keys ht1 = table_keys ht \<and> child_of ht1 sa fi \<noteq> None \<and>
               (\<forall>i. routed ht1 sa fi i
                  = routed ht sa fi i @ (if i = nat (uint (rec_hash r) mod (B + 1)) then [r] else []))
          else table_keys ht1 = table_keys ht @ [rec_tuple r] \<and> (\<forall>i. routed ht1 sa fi i = routed ht sa fi i))"
    and chk: "child_of ht sa fi \<noteq> None \<longrightarrow> child_of ht1 sa fi \<noteq> None"
    by blast
  from Cons.IH [OF inv1 Cons.prems(2,3,4) rdy1 rst'] obtain agg' ht' where
    2: "load_records sa fi rs (agg1, ht1) = Inr (agg', ht')" and
    inv2: "reload_inv sa fi B L ht'" and
    rdy2: "reload_ready sa fi (nr + 1 + of_nat (length rs)) nw agg0 agg' ht'" and
    ih: "\<forall>i. routed ht' sa fi i = routed ht1 sa fi i @
                 filter (\<lambda>r. nat (uint (rec_hash r) mod (B + 1)) = i)
                   (refused_records (hybrid_capacity ht1) (table_keys ht1) rs)"
        "refused_records (hybrid_capacity ht1) (table_keys ht1) rs \<noteq> [] \<longrightarrow> child_of ht' sa fi \<noteq> None"
        "child_of ht1 sa fi \<noteq> None \<longrightarrow> child_of ht' sa fi \<noteq> None"
    by blast
  have run: "load_records sa fi (r # rs) (agg, ht) = Inr (agg', ht')"
    using 1 2 by (simp add: bindE_def)
  have rdy: "reload_ready sa fi (nr + of_nat (length (r # rs))) nw agg0 agg' ht'"
  proof -
    have "nr + 1 + of_nat (length rs) = nr + of_nat (length (r # rs))" by simp
    with rdy2 show ?thesis by simp
  qed
  have rest: "(\<forall>i. routed ht' sa fi i = routed ht sa fi i @
                 filter (\<lambda>r. nat (uint (rec_hash r) mod (B + 1)) = i)
                   (refused_records (hybrid_capacity ht) (table_keys ht) (r # rs))) \<and>
         (refused_records (hybrid_capacity ht) (table_keys ht) (r # rs) \<noteq> [] \<longrightarrow> child_of ht' sa fi \<noteq> None)
         \<and> (child_of ht sa fi \<noteq> None \<longrightarrow> child_of ht' sa fi \<noteq> None)"
  proof (cases "rec_tuple r \<in> set (table_keys ht)")
    case True
    with st have "table_keys ht1 = table_keys ht" "\<forall>i. routed ht1 sa fi i = routed ht sa fi i"
      by simp_all
    with ih c1 True chk show ?thesis by simp
  next
    case False
    show ?thesis
    proof (cases "table_full (hybrid_capacity ht) (table_keys ht)")
      case full: True
      with False st have "table_keys ht1 = table_keys ht" "child_of ht1 sa fi \<noteq> None"
        "\<forall>i. routed ht1 sa fi i
                  = routed ht sa fi i @ (if i = nat (uint (rec_hash r) mod (B + 1)) then [r] else [])"
        by simp_all
      with ih c1 False full show ?thesis by (simp add: table_full_def)
    next
      case nfull: False
      with False st have "table_keys ht1 = table_keys ht @ [rec_tuple r]"
        "\<forall>i. routed ht1 sa fi i = routed ht sa fi i"
        by simp_all
      with ih c1 False nfull chk show ?thesis by (simp add: table_full_def)
    qed
  qed
  from run inv2 rdy rest show ?case by blast
qed

lemma read_done_effect:
  assumes "read_done sa fi ht = Inr ht'"
  shows "tablecxt ht' = tablecxt ht \<and> tablecxt_used ht' = tablecxt_used ht
       \<and> (child_of ht sa fi \<noteq> None \<longrightarrow> spill_set ht' = child_of ht sa fi)"
proof -
  from assms obtain ss where ss: "tablecxt ht sa = Some ss"
    by (cases "tablecxt ht sa") (simp_all add: read_done_def)
  from assms ss have fi: "fi < length (spill_file ss)"
    by (simp add: read_done_def split: if_splits)
  from assms ss fi obtain f where f: "spill_file ss ! fi = Some f"
    by (cases "spill_file ss ! fi") (simp_all add: read_done_def)
  from assms ss fi f have "ht' = (if file_spilled f then ht\<lparr>spill_set := child_spill_set f\<rparr> else ht)"
    by (simp add: read_done_def split: if_splits)
  with ss fi f show ?thesis by (simp add: child_of_def)
qed

lemma nat_uint_mod:
  assumes "0 < n"
  shows "nat (uint h mod n) = unat h mod nat n"
proof -
  have "nat (uint h mod n) = nat (uint h) mod nat n"
    using assms by (intro nat_mod_distrib) simp_all
  also have "nat (uint h) = unat h" by (rule unat_eq_nat_uint [symmetric])
  finally show ?thesis .
qed


lemma read_done_ok:
  assumes "batch_file ht sa fi = Some f" and "ntups_read f = ntups_write f"
  shows "\<exists>ht'. read_done sa fi ht = Inr ht'"
  using assms by (auto simp: read_done_def batch_file_def split: option.splits if_splits)

text \<open>
  C6.  Reloading a batch file that has not overflowed before, from a spill set
  with \<open>B\<close> batch slots at level \<open>L\<close> (both below \<open>2^31 - 1\<close>), whose count of
  records written is the number of its records, all of them restorable, into
  a table whose entries have their per-group states: the reload does not
  fail, and if any of the records misses and cannot be inserted, then at the
  end of the file a child spill set exists that the file points to and that
  becomes the table's current spill set; it has \<open>B + 1\<close> batch slots and
  level \<open>L + 1\<close>, its parent pointer is the spill set being reloaded, and
  batch \<open>i\<close> of the child holds exactly the refused records whose stored hash
  is \<open>i\<close> modulo \<open>B + 1\<close>, every one of them, in file order.
\<close>

theorem reload_overflow_goes_to_child:
  assumes "tablecxt ht sa = Some ss" and "fi < length (spill_file ss)"
    and "spill_file ss ! fi = Some f" and "\<not> file_spilled f"
    and "sa < tablecxt_used ht" and "\<forall>a \<ge> tablecxt_used ht. tablecxt ht a = None"
    and "0 \<le> num_files ss" and "num_files ss < 2 ^ 31 - 1" and "level ss < 2 ^ 31 - 1"
    and "ntups_write f = ntups_read f + of_nat (length (buffile f))"
    and "0 < numtrans agg \<longrightarrow> (\<forall>e \<in> set (hashtab ht). additional e \<noteq> None)"
    and "\<forall>r \<in> set (buffile f). \<forall>a < nat (numtrans agg).
           restorable (pertrans agg a) (rec_pergroup r a) (rec_payload r a)"
    and "refused_records (hybrid_capacity ht) (table_keys ht) (buffile f) \<noteq> []"
  shows "\<exists>agg' ht' ca child.
           load_file sa fi (agg, ht) = Inr (agg', ht')
           \<and> child_of ht' sa fi = Some ca \<and> spill_set ht' = Some ca
           \<and> tablecxt ht' ca = Some child
           \<and> num_files child = num_files ss + 1 \<and> level child = level ss + 1
           \<and> parent_spill_set child = Some sa
           \<and> (\<forall>i. batch_records ht' ca i =
                  filter (\<lambda>r. unat (rec_hash r) mod nat (num_files ss + 1) = i)
                    (refused_records (hybrid_capacity ht) (table_keys ht) (buffile f)))"
proof -
  let ?B = "num_files ss" and ?L = "level ss"
  let ?ref = "refused_records (hybrid_capacity ht) (table_keys ht) (buffile f)"
  have inv: "reload_inv sa fi ?B ?L ht"
    using assms(1-6) by (auto simp: reload_inv_def)
  have rdy: "reload_ready sa fi (ntups_read f) (ntups_write f) agg agg ht"
    using assms(1-3,11) by (simp add: reload_ready_def batch_file_def)
  have r0: "\<forall>i. routed ht sa fi i = []"
    using assms(1-4) by (simp add: routed_def child_of_def)
  from load_records_routing [OF inv assms(7,8,9) rdy assms(12)] assms(13) r0 obtain agg1 ht1 where
    lr: "load_records sa fi (buffile f) (agg, ht) = Inr (agg1, ht1)" and
    inv1: "reload_inv sa fi ?B ?L ht1" and
    rdy1: "reload_ready sa fi (ntups_read f + of_nat (length (buffile f))) (ntups_write f) agg agg1 ht1" and
    rt: "\<forall>i. routed ht1 sa fi i = filter (\<lambda>r. nat (uint (rec_hash r) mod (?B + 1)) = i) ?ref" and
    ch: "child_of ht1 sa fi \<noteq> None"
    by auto
  from rdy1 obtain f1' where "batch_file ht1 sa fi = Some f1'" "ntups_read f1' = ntups_write f1'"
    using assms(10) by (auto simp: reload_ready_def)
  from read_done_ok [OF this] obtain ht' where rd: "read_done sa fi ht1 = Inr ht'" by blast
  have run: "load_file sa fi (agg, ht) = Inr (agg1, ht')"
    using assms(1-3) lr rd by (simp add: load_file_def bindE_def)
  from ch obtain ca where ca: "child_of ht1 sa fi = Some ca" by blast
  from inv1 obtain ss1 f1 where
    s1: "tablecxt ht1 sa = Some ss1" "fi < length (spill_file ss1)" "spill_file ss1 ! fi = Some f1"
    and c1: "file_spilled f1 \<longrightarrow>
             (\<exists>ca child. child_spill_set f1 = Some ca \<and> ca \<noteq> sa \<and> ca < tablecxt_used ht1 \<and>
                 tablecxt ht1 ca = Some child \<and> num_files child = ?B + 1 \<and> level child = ?L + 1 \<and>
                 parent_spill_set child = Some sa \<and> length (spill_file child) = nat (?B + 1))"
    unfolding reload_inv_def by blast
  from ca s1 have sp1: "file_spilled f1" "child_spill_set f1 = Some ca"
    by (simp_all add: child_of_def split: if_splits)
  with c1 obtain child where
    child: "tablecxt ht1 ca = Some child" "num_files child = ?B + 1" "level child = ?L + 1"
      "parent_spill_set child = Some sa"
    by auto
  from read_done_effect [OF rd] ca have
    fr: "tablecxt ht' = tablecxt ht1" "tablecxt_used ht' = tablecxt_used ht1" and sp: "spill_set ht' = Some ca"
    by simp_all
  have ca': "child_of ht' sa fi = Some ca" using same_cxt(3) [OF fr] ca by simp
  have br: "\<forall>i. batch_records ht' ca i = routed ht1 sa fi i"
    using ca fr(1) by (simp add: routed_def batch_records_def)
  have eq: "\<And>h. nat (uint h mod (?B + 1)) = unat h mod nat (?B + 1)"
    using nat_uint_mod [of "?B + 1"] assms(7) by simp
  have rt': "\<forall>i. routed ht1 sa fi i = filter (\<lambda>r. unat (rec_hash r) mod nat (?B + 1) = i) ?ref"
    using rt unfolding eq .
  have "\<forall>i. batch_records ht' ca i
       = filter (\<lambda>r. unat (rec_hash r) mod nat (?B + 1) = i) ?ref"
  proof
    fix i
    from br have "batch_records ht' ca i = routed ht1 sa fi i" by (rule spec)
    also from rt' have "\<dots> = filter (\<lambda>r. unat (rec_hash r) mod nat (?B + 1) = i) ?ref" by (rule spec)
    finally show "batch_records ht' ca i = filter (\<lambda>r. unat (rec_hash r) mod nat (?B + 1) = i) ?ref" .
  qed
  with run ca' sp child fr(1) show ?thesis
    by (intro exI [of _ agg1] exI [of _ ht'] exI [of _ ca] exI [of _ child]) simp
qed

lemma ex_refused: "refused_records (hybrid_capacity (ex_spilled_table ex_batch))
     (table_keys (ex_spilled_table ex_batch)) ex_batch
       = [ex_record 8 20, ex_record 12 40, ex_record 8 50]"
  by (simp add: hybrid_capacity_def table_keys_def ex_batch_def ex_record_def ex_spilled_table_def
        ex_table_def)

theorem reload_overflow_goes_to_child_witness:
  "\<exists>agg' ht' ca child.
      load_file 0 0 (ex_aggstate AGG_HASHED (ex_pertrans ex_sum True 5 False 0),
                     ex_spilled_table ex_batch) = Inr (agg', ht')
      \<and> child_of ht' 0 0 = Some ca \<and> spill_set ht' = Some ca \<and> tablecxt ht' ca = Some child
      \<and> num_files child = 5 \<and> level child = 1 \<and> parent_spill_set child = Some 0
      \<and> batch_records ht' ca 3 = [ex_record 8 20, ex_record 8 50]
      \<and> batch_records ht' ca 2 = [ex_record 12 40]
      \<and> batch_records ht' ca 0 = []"
proof -
  let ?agg = "ex_aggstate AGG_HASHED (ex_pertrans ex_sum True 5 False 0)"
  let ?ht = "ex_spilled_table ex_batch"
  let ?f = "\<lparr>ntups_read = 0, ntups_write = word_of_int (int (length ex_batch)),
             file_spilled = False, child_spill_set = None, buffile = ex_batch\<rparr> :: int SpillFile"
  have h: "tablecxt ?ht 0 = Some (ex_root_set ex_batch)"
          "0 < length (spill_file (ex_root_set ex_batch))"
          "spill_file (ex_root_set ex_batch) ! 0 = Some ?f"
          "\<not> file_spilled ?f"
          "0 < tablecxt_used ?ht"
          "\<forall>a \<ge> tablecxt_used ?ht. tablecxt ?ht a = None"
          "0 \<le> num_files (ex_root_set ex_batch)"
          "num_files (ex_root_set ex_batch) < 2 ^ 31 - 1"
          "level (ex_root_set ex_batch) < 2 ^ 31 - 1"
          "ntups_write ?f = ntups_read ?f + of_nat (length (buffile ?f))"
          "0 < numtrans ?agg \<longrightarrow> (\<forall>e \<in> set (hashtab ?ht). additional e \<noteq> None)"
          "\<forall>r \<in> set (buffile ?f). \<forall>a < nat (numtrans ?agg).
             restorable (pertrans ?agg a) (rec_pergroup r a) (rec_payload r a)"
    by (simp_all add: ex_spilled_table_def ex_root_set_def ex_table_def ex_batch_def
          restorable_def ex_aggstate_def ex_pertrans_def)
  have ref: "refused_records (hybrid_capacity ?ht) (table_keys ?ht) (buffile ?f) \<noteq> []"
    using ex_refused by simp
  from reload_overflow_goes_to_child [OF h ref] obtain agg' ht' ca child where
    run: "load_file 0 0 (?agg, ?ht) = Inr (agg', ht')" and
    c: "child_of ht' 0 0 = Some ca" "spill_set ht' = Some ca" "tablecxt ht' ca = Some child"
       "num_files child = num_files (ex_root_set ex_batch) + 1"
       "level child = level (ex_root_set ex_batch) + 1" "parent_spill_set child = Some 0"
    and b: "\<forall>i. batch_records ht' ca i =
                  filter (\<lambda>r. unat (rec_hash r) mod nat (num_files (ex_root_set ex_batch) + 1) = i)
                    (refused_records (hybrid_capacity ?ht) (table_keys ?ht) (buffile ?f))"
    by blast
  have b': "batch_records ht' ca i =
                  filter (\<lambda>r. unat (rec_hash r) mod nat (num_files (ex_root_set ex_batch) + 1) = i)
                    [ex_record 8 20, ex_record 12 40, ex_record 8 50]" for i
    using b ex_refused by simp
  have b3: "batch_records ht' ca 3 = [ex_record 8 20, ex_record 8 50]"
    and b2: "batch_records ht' ca 2 = [ex_record 12 40]"
    and b0: "batch_records ht' ca 0 = []"
    unfolding b' by (simp_all add: ex_root_set_def ex_record_def)
  from c have "num_files child = 5" "level child = 1" by (simp_all add: ex_root_set_def)
  with run c b3 b2 b0 show ?thesis by blast
qed

section \<open>Properties of the orchestrator\<close>
















end
